theory Spec2Isabelle
  imports Complex_Main "HOL-Library.Multiset"
begin

section \<open>The team balancer: data model\<close>

text \<open>
  The embedded program is \<^verbatim>\<open>team_balancer.py\<close> (class \<^verbatim>\<open>TeamBalancer\<close>) and the
  statistics part of the two endpoints of \<^verbatim>\<open>api.py\<close>.

  Conventions of the embedding.
  \<^item> A Python \<^verbatim>\<open>float\<close> is a real number: arithmetic is exact, and rounding, NaN and
    overflow are outside the model. \<^verbatim>\<open>float('inf')\<close>, which the code uses as the
    "no result yet" difference, is a constructor of its own.
  \<^item> A \<^verbatim>\<open>dict\<close> whose keys are team numbers is an association list in insertion
    order, each key once.
  \<^item> The PuLP/CBC solver is not part of the repository. The optimisation problem the
    code builds is a value (\<open>LpProblem\<close>), and the solver is a parameter: a function from
    the problem and the time limit to a status and a value for each variable.
  \<^item> The random generator is a parameter as well: for each attempt the draws that
    \<^verbatim>\<open>random.shuffle\<close> and \<^verbatim>\<open>random.uniform\<close> consume.
  \<^item> An exception is a value of \<open>py_error\<close>, returned as \<open>Inl\<close>.
  \<^item> The statistics are embedded twice: as functions of the dictionary's content, and
    on a store of mutable objects, where their writes are explicit. The two are proved
    to agree.
  \<^item> \<^verbatim>\<open>print_teams\<close> is modelled by the figures it prints; the progress messages of
    the other methods are left out.
\<close>

datatype py_error = ZeroDivisionError | KeyError string

record Player =
  name :: string
  overall :: real
  position :: string

text \<open>The dictionary \<^verbatim>\<open>{team number: [players]}\<close>.\<close>

type_synonym teams = "(nat \<times> Player list) list"

text \<open>A rating difference: a finite number, or \<^verbatim>\<open>float('inf')\<close>.\<close>

datatype rating_diff = Finite real | Infinity

text \<open>The comparisons \<^verbatim>\<open><\<close> and \<^verbatim>\<open><=\<close> of Python on such values.\<close>

fun diff_less :: "rating_diff \<Rightarrow> rating_diff \<Rightarrow> bool" where
  "diff_less (Finite a) (Finite b) = (a < b)"
| "diff_less (Finite a) Infinity = True"
| "diff_less Infinity d = False"

fun diff_le :: "rating_diff \<Rightarrow> rating_diff \<Rightarrow> bool" where
  "diff_le (Finite a) (Finite b) = (a \<le> b)"
| "diff_le d Infinity = True"
| "diff_le Infinity (Finite b) = False"

text \<open>
  \<^verbatim>\<open>self.position_requirements\<close>, set by \<^verbatim>\<open>__init__\<close> to the same dictionary for
  every balancer.
\<close>

definition position_requirements :: "(string \<times> nat) list" where
  "position_requirements = [(''DEF'', 2), (''MID'', 2), (''ATT'', 2)]"

section \<open>The optimisation problem\<close>

text \<open>
  The decision variables: \<^verbatim>\<open>player_vars[i, j]\<close> (player \<open>i\<close> of \<^verbatim>\<open>self.players\<close> is in
  team \<open>j\<close>) and \<^verbatim>\<open>max_diff\<close>.
\<close>

datatype var = player_var nat nat | max_diff_var

text \<open>An affine expression: the terms \<open>coefficient * variable\<close> and a constant.\<close>

type_synonym aff = "(real \<times> var) list \<times> real"

datatype sense = LpConstraintLE | LpConstraintEQ | LpConstraintGE

record LpConstraint =
  lhs :: aff
  sense :: sense
  rhs :: aff

record LpProblem =
  binary_vars :: "var list"
  lower_bounded_vars :: "(var \<times> real) list"
  constraints :: "LpConstraint list"
  objective :: aff

datatype LpStatus =
  LpStatusNotSolved | LpStatusOptimal | LpStatusInfeasible | LpStatusUnbounded
  | LpStatusUndefined

text \<open>What \<^verbatim>\<open>value(v)\<close> gives for each variable after a solve; \<open>None\<close> is Python's \<^verbatim>\<open>None\<close>.\<close>

type_synonym assignment = "var \<Rightarrow> real option"

type_synonym solver = "LpProblem \<Rightarrow> int \<Rightarrow> LpStatus \<times> assignment"

definition lpSum :: "var list \<Rightarrow> aff" where
  "lpSum vs = (map (\<lambda>v. (1, v)) vs, 0)"

definition const_aff :: "real \<Rightarrow> aff" where
  "const_aff c = ([], c)"

text \<open>
  Lines 66-68: each player is in exactly one team.
\<close>

definition one_team_constraints :: "Player list \<Rightarrow> int \<Rightarrow> LpConstraint list" where
  "one_team_constraints ps num_teams =
     map (\<lambda>i. \<lparr>lhs = lpSum (map (player_var i) [0..<nat num_teams]),
               sense = LpConstraintEQ, rhs = const_aff 1\<rparr>)
       [0..<length ps]"

text \<open>
  Lines 70-84: \<^verbatim>\<open>max_diff\<close> bounds the distance of every team's rating from the target,
  less a random slack. \<open>jitter (2 * j)\<close> and \<open>jitter (2 * j + 1)\<close> are the two values
  \<^verbatim>\<open>random.uniform(0, rating_threshold)\<close> returns for team \<open>j\<close>.
\<close>

definition team_rating :: "Player list \<Rightarrow> nat \<Rightarrow> (real \<times> var) list" where
  "team_rating ps j = map (\<lambda>i. (overall (ps ! i), player_var i j)) [0..<length ps]"

definition rating_constraints ::
  "Player list \<Rightarrow> int \<Rightarrow> (nat \<Rightarrow> real) \<Rightarrow> LpConstraint list" where
  "rating_constraints ps num_teams jitter =
     (let total_rating = sum_list (map overall ps);
          target_team_rating = total_rating / real_of_int num_teams
      in concat (map (\<lambda>j.
           [\<lparr>lhs = lpSum [max_diff_var], sense = LpConstraintGE,
             rhs = (team_rating ps j, - target_team_rating - jitter (2 * j))\<rparr>,
            \<lparr>lhs = lpSum [max_diff_var], sense = LpConstraintGE,
             rhs = (map (\<lambda>(a, v). (- a, v)) (team_rating ps j),
                    target_team_rating - jitter (2 * j + 1))\<rparr>])
         [0..<nat num_teams]))"

text \<open>
  Lines 89-98: for every team, the minimum of each position of
  \<^verbatim>\<open>position_requirements\<close>, then the team's size \<^verbatim>\<open>len(self.players) // num_teams\<close>.
\<close>

definition position_constraint :: "Player list \<Rightarrow> nat \<Rightarrow> string \<times> nat \<Rightarrow> LpConstraint" where
  "position_constraint ps j = (\<lambda>(pos, min_count).
     \<lparr>lhs = lpSum (map (\<lambda>i. player_var i j)
              (filter (\<lambda>i. position (ps ! i) = pos) [0..<length ps])),
      sense = LpConstraintGE, rhs = const_aff (real min_count)\<rparr>)"

definition size_constraint :: "Player list \<Rightarrow> int \<Rightarrow> nat \<Rightarrow> LpConstraint" where
  "size_constraint ps num_teams j =
     \<lparr>lhs = lpSum (map (\<lambda>i. player_var i j) [0..<length ps]),
      sense = LpConstraintEQ,
      rhs = const_aff (real_of_int (int (length ps) div num_teams))\<rparr>"

definition team_constraints :: "Player list \<Rightarrow> int \<Rightarrow> LpConstraint list" where
  "team_constraints ps num_teams =
     concat (map (\<lambda>j. map (position_constraint ps j) position_requirements
                       @ [size_constraint ps num_teams j])
       [0..<nat num_teams])"

text \<open>Lines 58-98: the problem handed to the solver.\<close>

definition build_problem :: "Player list \<Rightarrow> int \<Rightarrow> (nat \<Rightarrow> real) \<Rightarrow> LpProblem" where
  "build_problem ps num_teams jitter =
     \<lparr>binary_vars = concat (map (\<lambda>i. map (player_var i) [0..<nat num_teams]) [0..<length ps]),
      lower_bounded_vars = [(max_diff_var, 0)],
      constraints = one_team_constraints ps num_teams
                    @ rating_constraints ps num_teams jitter
                    @ team_constraints ps num_teams,
      objective = lpSum [max_diff_var]\<rparr>"

subsection \<open>What a solution is\<close>

definition var_value :: "assignment \<Rightarrow> var \<Rightarrow> real" where
  "var_value vals v = (case vals v of Some x \<Rightarrow> x | None \<Rightarrow> 0)"

definition aff_value :: "assignment \<Rightarrow> aff \<Rightarrow> real" where
  "aff_value vals e = sum_list (map (\<lambda>(a, v). a * var_value vals v) (fst e)) + snd e"

definition holds :: "assignment \<Rightarrow> LpConstraint \<Rightarrow> bool" where
  "holds vals c =
     (case sense c of
        LpConstraintLE \<Rightarrow> aff_value vals (lhs c) \<le> aff_value vals (rhs c)
      | LpConstraintEQ \<Rightarrow> aff_value vals (lhs c) = aff_value vals (rhs c)
      | LpConstraintGE \<Rightarrow> aff_value vals (lhs c) \<ge> aff_value vals (rhs c))"

definition is_binary :: "assignment \<Rightarrow> var \<Rightarrow> bool" where
  "is_binary vals v = (vals v = Some 0 \<or> vals v = Some 1)"

definition above_bound :: "assignment \<Rightarrow> var \<times> real \<Rightarrow> bool" where
  "above_bound vals = (\<lambda>(v, lb). case vals v of None \<Rightarrow> False | Some x \<Rightarrow> lb \<le> x)"

definition feasible :: "LpProblem \<Rightarrow> assignment \<Rightarrow> bool" where
  "feasible prob vals =
     (list_all (is_binary vals) (binary_vars prob)
      \<and> list_all (above_bound vals) (lower_bounded_vars prob)
      \<and> list_all (holds vals) (constraints prob))"

text \<open>The statuses the code reads a result from (line 108).\<close>

definition usable :: "LpStatus \<Rightarrow> bool" where
  "usable status = (status = LpStatusOptimal \<or> status = LpStatusNotSolved)"

text \<open>
  Modelled from the spec: the solver (PuLP with CBC) is an external library. The spec's
  contract of the Solver Adapter promises, with the status Optimal, a value 0 or 1 for
  every decision variable that satisfies the model. PuLP's status \<^verbatim>\<open>'Not Solved'\<close>, which
  line 108 accepts as well, comes with no such promise: it is the status of a solve that
  was stopped, and the values are whatever the solver had reached.
\<close>

definition solver_contract :: "solver \<Rightarrow> bool" where
  "solver_contract solve =
     (\<forall>prob time_limit. fst (solve prob time_limit) = LpStatusOptimal
        \<longrightarrow> feasible prob (snd (solve prob time_limit)))"

section \<open>One attempt\<close>

text \<open>\<^verbatim>\<open>d[k].append(x)\<close> on a \<^verbatim>\<open>defaultdict(list)\<close>.\<close>

fun dict_append :: "'k \<Rightarrow> 'v \<Rightarrow> ('k \<times> 'v list) list \<Rightarrow> ('k \<times> 'v list) list" where
  "dict_append j p [] = [(j, [p])]"
| "dict_append j p ((k, ps) # rest) =
     (if k = j then (k, ps @ [p]) # rest else (k, ps) # dict_append j p rest)"

text \<open>Lines 109-112: the players whose variable for a team has the value 1.\<close>

definition extract_teams :: "Player list \<Rightarrow> int \<Rightarrow> assignment \<Rightarrow> teams" where
  "extract_teams ps num_teams vals =
     fold (\<lambda>i. fold (\<lambda>j teams.
                 if vals (player_var i j) = Some 1 then dict_append j (ps ! i) teams
                 else teams)
               [0..<nat num_teams])
       [0..<length ps] []"

text \<open>Lines 116-118, for a dictionary that is not empty.\<close>

definition team_ratings :: "teams \<Rightarrow> real list" where
  "team_ratings teams =
     map (\<lambda>(j, players). sum_list (map overall players) / real (length players)) teams"

definition max_rating_diff :: "teams \<Rightarrow> real" where
  "max_rating_diff teams = Max (set (team_ratings teams)) - Min (set (team_ratings teams))"

text \<open>
  \<^verbatim>\<open>_try_balance_teams\<close>. \<open>ps\<close> is \<^verbatim>\<open>self.players\<close>. Line 72 divides by \<^verbatim>\<open>num_teams\<close>.
\<close>

definition try_balance_teams ::
  "solver \<Rightarrow> Player list \<Rightarrow> int \<Rightarrow> int \<Rightarrow> (nat \<Rightarrow> real)
     \<Rightarrow> py_error + (teams \<times> rating_diff)" where
  "try_balance_teams solve ps num_teams time_limit jitter =
     (if num_teams = 0 then Inl ZeroDivisionError
      else
        let prob = build_problem ps num_teams jitter;
            (status, vals) = solve prob time_limit
        in if status = LpStatusOptimal \<or> status = LpStatusNotSolved then
             let teams = extract_teams ps num_teams vals
             in if teams \<noteq> [] then Inr (teams, Finite (max_rating_diff teams))
                else Inr (teams, Infinity)
           else Inr ([], Infinity))"

section \<open>The run\<close>

text \<open>
  \<^verbatim>\<open>random.shuffle(x)\<close> of the standard library: for \<open>i\<close> from \<open>len(x) - 1\<close> down to 1,
  swap \<open>x[i]\<close> with \<open>x[j]\<close>, \<open>j\<close> drawn from \<open>0..i\<close>. \<open>draw i\<close> is the generator's
  number for position \<open>i\<close>, reduced to that range.
\<close>

definition swap_at :: "nat \<Rightarrow> nat \<Rightarrow> 'a list \<Rightarrow> 'a list" where
  "swap_at i j xs = xs[i := xs ! j, j := xs ! i]"

definition shuffle :: "(nat \<Rightarrow> nat) \<Rightarrow> 'a list \<Rightarrow> 'a list" where
  "shuffle draw xs =
     fold (\<lambda>i ys. swap_at i (draw i mod (i + 1)) ys) (rev [1..<length xs]) xs"

text \<open>The random numbers one attempt consumes.\<close>

record attempt_draws =
  shuffle_draws :: "nat \<Rightarrow> nat"
  jitter_draws :: "nat \<Rightarrow> real"

text \<open>
  The state of a run: \<^verbatim>\<open>self.players\<close>, the two locals \<^verbatim>\<open>best_teams\<close> and
  \<^verbatim>\<open>best_diff\<close>, and the number of calls of the solver so far.
\<close>

record run_state =
  players :: "Player list"
  best_teams :: teams
  best_diff :: rating_diff
  solver_calls :: nat

text \<open>Lines 149-159: the body of the loop.\<close>

definition attempt ::
  "solver \<Rightarrow> int \<Rightarrow> int \<Rightarrow> attempt_draws \<Rightarrow> run_state \<Rightarrow> py_error + run_state" where
  "attempt solve num_teams time_limit d st =
     (let ps = shuffle (shuffle_draws d) (players st)
      in case try_balance_teams solve ps num_teams time_limit (jitter_draws d) of
           Inl e \<Rightarrow> Inl e
         | Inr (teams, max_diff) \<Rightarrow>
             if teams \<noteq> [] \<and> diff_less max_diff (best_diff st)
             then Inr \<lparr>players = ps, best_teams = teams, best_diff = max_diff,
                       solver_calls = solver_calls st + 1\<rparr>
             else Inr \<lparr>players = ps, best_teams = best_teams st, best_diff = best_diff st,
                       solver_calls = solver_calls st + 1\<rparr>)"

fun attempts ::
  "solver \<Rightarrow> int \<Rightarrow> int \<Rightarrow> attempt_draws list \<Rightarrow> run_state \<Rightarrow> py_error + run_state" where
  "attempts solve num_teams time_limit [] st = Inr st"
| "attempts solve num_teams time_limit (d # ds) st =
     (case attempt solve num_teams time_limit d st of
        Inl e \<Rightarrow> Inl e
      | Inr st' \<Rightarrow> attempts solve num_teams time_limit ds st')"

text \<open>
  \<^verbatim>\<open>balance_teams\<close>. \<open>ps\<close> is \<^verbatim>\<open>self.players\<close> at the call, \<open>rng k\<close> the draws of
  attempt \<open>k\<close>. The result is the final state; the Python function returns its
  \<open>best_teams\<close>. Line 134 takes the remainder by \<^verbatim>\<open>num_teams\<close>. The time limit of an
  attempt is \<^verbatim>\<open>time_limit // num_attempts\<close>, evaluated inside the loop only.
\<close>

definition balance_teams ::
  "solver \<Rightarrow> (nat \<Rightarrow> attempt_draws) \<Rightarrow> Player list \<Rightarrow> int \<Rightarrow> int \<Rightarrow> int
     \<Rightarrow> py_error + run_state" where
  "balance_teams solve rng ps num_teams time_limit num_attempts =
     (if num_teams = 0 then Inl ZeroDivisionError
      else if int (length ps) mod num_teams \<noteq> 0
      then Inr \<lparr>players = ps, best_teams = [], best_diff = Infinity, solver_calls = 0\<rparr>
      else attempts solve num_teams (time_limit div num_attempts)
             (map rng [0..<nat num_attempts])
             \<lparr>players = ps, best_teams = [], best_diff = Infinity, solver_calls = 0\<rparr>)"

section \<open>The statistics of the API\<close>

text \<open>
  \<^verbatim>\<open>api.py\<close>, lines 88-119 (\<^verbatim>\<open>/balance/json\<close>) and 148-179 (\<^verbatim>\<open>/balance/csv\<close>): the same
  statements in both endpoints. \<^verbatim>\<open>PlayerOutput\<close> has the fields of \<^verbatim>\<open>Player\<close> and is the
  same record here.
\<close>

record TeamOutput =
  team_number :: nat
  team_players :: "Player list"
  average_rating :: real
  position_distribution :: "(string \<times> nat) list"
  total_rating :: real

record BalanceResponse =
  teams :: "TeamOutput list"
  overall_mean :: real
  max_rating_difference :: real

text \<open>\<^verbatim>\<open>pos_dist[k] += 1\<close> on a plain dictionary: a key that is missing raises.\<close>

fun dict_incr :: "string \<Rightarrow> (string \<times> nat) list \<Rightarrow> py_error + (string \<times> nat) list" where
  "dict_incr k [] = Inl (KeyError k)"
| "dict_incr k ((k', n) # rest) =
     (if k' = k then Inr ((k', n + 1) # rest)
      else case dict_incr k rest of
             Inl e \<Rightarrow> Inl e
           | Inr rest' \<Rightarrow> Inr ((k', n) # rest'))"

text \<open>Lines 98-100.\<close>

fun count_positions ::
  "Player list \<Rightarrow> (string \<times> nat) list \<Rightarrow> py_error + (string \<times> nat) list" where
  "count_positions [] pos_dist = Inr pos_dist"
| "count_positions (p # ps) pos_dist =
     (case dict_incr (position p) pos_dist of
        Inl e \<Rightarrow> Inl e
      | Inr pos_dist' \<Rightarrow> count_positions ps pos_dist')"

text \<open>Lines 94-109, for one item of the dictionary. Line 95 divides by the team's size.\<close>

definition team_output :: "nat \<times> Player list \<Rightarrow> py_error + TeamOutput" where
  "team_output = (\<lambda>(team_num, ps).
     let team_rating = sum_list (map overall ps)
     in if length ps = 0 then Inl ZeroDivisionError
        else case count_positions ps [(''DEF'', 0), (''MID'', 0), (''ATT'', 0)] of
               Inl e \<Rightarrow> Inl e
             | Inr pos_dist \<Rightarrow>
                 Inr \<lparr>team_number = team_num + 1,
                      team_players = map (\<lambda>p. \<lparr>name = name p, overall = overall p,
                                                position = position p\<rparr>) ps,
                      average_rating = team_rating / real (length ps),
                      position_distribution = pos_dist,
                      total_rating = team_rating\<rparr>)"

text \<open>The loop of line 92 over the items; the first exception ends it.\<close>

fun team_outputs :: "(nat \<times> Player list) list \<Rightarrow> py_error + TeamOutput list" where
  "team_outputs [] = Inr []"
| "team_outputs (t # ts) =
     (case team_output t of
        Inl e \<Rightarrow> Inl e
      | Inr out \<Rightarrow>
          (case team_outputs ts of
             Inl e \<Rightarrow> Inl e
           | Inr outs \<Rightarrow> Inr (out # outs)))"

text \<open>
  Lines 88-119. \<^verbatim>\<open>sorted(teams.items())\<close> orders the items by team number, the keys of a
  dictionary being distinct. Line 111 divides by the number of players.
\<close>

definition statistics :: "teams \<Rightarrow> py_error + BalanceResponse" where
  "statistics teams_dict =
     (let items = sort_key fst teams_dict
      in case team_outputs items of
           Inl e \<Rightarrow> Inl e
         | Inr outs \<Rightarrow>
             let all_players = concat (map snd items)
             in if length all_players = 0 then Inl ZeroDivisionError
                else
                  let team_means = map average_rating outs
                  in Inr \<lparr>teams = outs,
                          overall_mean = sum_list (map overall all_players)
                                         / real (length all_players),
                          max_rating_difference = Max (set team_means) - Min (set team_means)\<rparr>)"

text \<open>
  \<^verbatim>\<open>print_teams\<close> of \<^verbatim>\<open>team_balancer.py\<close> (lines 169-226) computes the same figures for the
  console. The model keeps the numbers and lists it prints, not their formatting: for each
  team its number, average, players of each position by falling rating, count of each
  position and total; then the mean over all players, the team means and their largest
  difference. For an empty dictionary it returns at once (\<open>None\<close>).
\<close>

record TeamReport =
  printed_team :: nat
  printed_average :: real
  printed_players :: "(string \<times> Player list) list"
  printed_counts :: "(string \<times> nat) list"
  printed_total :: real

record Report =
  printed_teams :: "TeamReport list"
  printed_overall_mean :: real
  printed_team_means :: "real list"
  printed_max_diff :: real

definition team_report :: "nat \<times> Player list \<Rightarrow> py_error + TeamReport" where
  "team_report = (\<lambda>(team_num, ps).
     if length ps = 0 then Inl ZeroDivisionError
     else Inr \<lparr>printed_team = team_num + 1,
               printed_average = sum_list (map overall ps) / real (length ps),
               printed_players =
                 map (\<lambda>pos. (pos, sort_key (\<lambda>p. - overall p)
                                    (filter (\<lambda>p. position p = pos) ps)))
                   [''DEF'', ''MID'', ''ATT''],
               printed_counts =
                 map (\<lambda>pos. (pos, length (filter (\<lambda>p. position p = pos) ps)))
                   [''DEF'', ''MID'', ''ATT''],
               printed_total = sum_list (map overall ps)\<rparr>)"

fun team_reports :: "(nat \<times> Player list) list \<Rightarrow> py_error + TeamReport list" where
  "team_reports [] = Inr []"
| "team_reports (t # ts) =
     (case team_report t of
        Inl e \<Rightarrow> Inl e
      | Inr r \<Rightarrow>
          (case team_reports ts of
             Inl e \<Rightarrow> Inl e
           | Inr rs \<Rightarrow> Inr (r # rs)))"

definition print_teams :: "teams \<Rightarrow> py_error + Report option" where
  "print_teams teams_dict =
     (if teams_dict = [] then Inr None
      else
        let sorted_teams = sort_key fst teams_dict
        in case team_reports sorted_teams of
             Inl e \<Rightarrow> Inl e
           | Inr reports \<Rightarrow>
               let all_players = concat (map snd sorted_teams);
                   team_means = map printed_average reports
               in if length all_players = 0 then Inl ZeroDivisionError
                  else Inr (Some \<lparr>printed_teams = reports,
                                  printed_overall_mean = sum_list (map overall all_players)
                                                         / real (length all_players),
                                  printed_team_means = team_means,
                                  printed_max_diff = Max (set team_means)
                                                     - Min (set team_means)\<rparr>))"

text \<open>
  What an endpoint answers: the response, or an \<^verbatim>\<open>HTTPException\<close> with its status code.
\<close>

datatype http_result = Response BalanceResponse | HTTPException nat

text \<open>
  Lines 78-122 and 142-182, from the call of \<^verbatim>\<open>balance_teams\<close> on. The whole body is
  inside \<^verbatim>\<open>try\<close>, and \<^verbatim>\<open>except Exception\<close> turns every exception into status 500; the
  \<^verbatim>\<open>HTTPException(status_code=400)\<close> of line 86 is raised inside the same \<^verbatim>\<open>try\<close>.
\<close>

definition balance_response :: "py_error + run_state \<Rightarrow> http_result" where
  "balance_response r =
     (case r of
        Inl e \<Rightarrow> HTTPException 500
      | Inr st \<Rightarrow>
          if best_teams st = [] then HTTPException 500
          else case statistics (best_teams st) of
                 Inl e \<Rightarrow> HTTPException 500
               | Inr response \<Rightarrow> Response response)"

text \<open>
  The two endpoints, from the balancer they build: \<open>ps\<close> is \<^verbatim>\<open>balancer.players\<close>.
\<close>

definition balance_teams_json ::
  "solver \<Rightarrow> (nat \<Rightarrow> attempt_draws) \<Rightarrow> Player list \<Rightarrow> int \<Rightarrow> int \<Rightarrow> int \<Rightarrow> http_result" where
  "balance_teams_json solve rng ps num_teams time_limit num_attempts =
     balance_response (balance_teams solve rng ps num_teams time_limit num_attempts)"

definition balance_teams_csv ::
  "solver \<Rightarrow> (nat \<Rightarrow> attempt_draws) \<Rightarrow> Player list \<Rightarrow> int \<Rightarrow> int \<Rightarrow> int \<Rightarrow> http_result" where
  "balance_teams_csv solve rng ps num_teams time_limit num_attempts =
     balance_response (balance_teams solve rng ps num_teams time_limit num_attempts)"

section \<open>The statistics on the objects of the program\<close>

text \<open>
  The dictionary that \<^verbatim>\<open>balance_teams\<close> returns, its lists and the \<^verbatim>\<open>Player\<close> objects in
  them are mutable objects that the caller and the balancer share. Here the two
  computations of the statistics are written on a store of such objects, every statement
  that changes an object in place (\<^verbatim>\<open>extend\<close>, \<^verbatim>\<open>append\<close>, \<^verbatim>\<open>+= 1\<close>, the insertion of a
  missing key by a \<^verbatim>\<open>defaultdict\<close>) as a write to the store.

  A reference is a number. The store holds the objects by their Python type: what is
  stored under a reference as a \<^verbatim>\<open>Player\<close>, as a list of players, as a dictionary of teams,
  as a dictionary of counts, as a \<^verbatim>\<open>defaultdict(list)\<close> of players by position (with the
  lists it creates itself), as a list of \<^verbatim>\<open>TeamOutput\<close> and as a list of floats.
  \<open>allocated\<close> is the first reference not in use: a new object takes it.
\<close>

type_synonym ref = nat

record store =
  player_objects :: "ref \<Rightarrow> Player"
  list_objects :: "ref \<Rightarrow> ref list"
  dict_objects :: "ref \<Rightarrow> (nat \<times> ref) list"
  count_objects :: "ref \<Rightarrow> (string \<times> nat) list"
  group_objects :: "ref \<Rightarrow> (string \<times> ref list) list"
  output_objects :: "ref \<Rightarrow> TeamOutput list"
  float_objects :: "ref \<Rightarrow> real list"
  allocated :: nat

text \<open>The dictionary under a reference as a value: what \<open>statistics\<close> takes.\<close>

definition players_of :: "store \<Rightarrow> ref \<Rightarrow> Player list" where
  "players_of s l = map (player_objects s) (list_objects s l)"

definition teams_of :: "store \<Rightarrow> ref \<Rightarrow> teams" where
  "teams_of s t = map (\<lambda>(j, l). (j, players_of s l)) (dict_objects s t)"

text \<open>New objects: \<^verbatim>\<open>[]\<close>, a dictionary literal, \<^verbatim>\<open>defaultdict(list)\<close>.\<close>

definition new_list :: "store \<Rightarrow> store \<times> ref" where
  "new_list s =
     (s\<lparr>list_objects := (list_objects s)(allocated s := []), allocated := allocated s + 1\<rparr>,
      allocated s)"

definition new_outputs :: "store \<Rightarrow> store \<times> ref" where
  "new_outputs s =
     (s\<lparr>output_objects := (output_objects s)(allocated s := []), allocated := allocated s + 1\<rparr>,
      allocated s)"

definition new_floats :: "store \<Rightarrow> store \<times> ref" where
  "new_floats s =
     (s\<lparr>float_objects := (float_objects s)(allocated s := []), allocated := allocated s + 1\<rparr>,
      allocated s)"

definition new_count :: "(string \<times> nat) list \<Rightarrow> store \<Rightarrow> store \<times> ref" where
  "new_count d s =
     (s\<lparr>count_objects := (count_objects s)(allocated s := d), allocated := allocated s + 1\<rparr>,
      allocated s)"

definition new_group :: "store \<Rightarrow> store \<times> ref" where
  "new_group s =
     (s\<lparr>group_objects := (group_objects s)(allocated s := []), allocated := allocated s + 1\<rparr>,
      allocated s)"

text \<open>\<^verbatim>\<open>a.extend(b)\<close> on two lists of players, and \<^verbatim>\<open>append\<close> on the two other lists.\<close>

definition list_extend :: "ref \<Rightarrow> ref \<Rightarrow> store \<Rightarrow> store" where
  "list_extend a b s =
     s\<lparr>list_objects := (list_objects s)(a := list_objects s a @ list_objects s b)\<rparr>"

definition outputs_append :: "ref \<Rightarrow> TeamOutput \<Rightarrow> store \<Rightarrow> store" where
  "outputs_append a x s =
     s\<lparr>output_objects := (output_objects s)(a := output_objects s a @ [x])\<rparr>"

definition floats_append :: "ref \<Rightarrow> real \<Rightarrow> store \<Rightarrow> store" where
  "floats_append a x s =
     s\<lparr>float_objects := (float_objects s)(a := float_objects s a @ [x])\<rparr>"

subsection \<open>The API\<close>

text \<open>
  \<^verbatim>\<open>api.py\<close>, lines 99-100: \<^verbatim>\<open>for p in players: pos_dist[p.position] += 1\<close>. The loop
  writes the dictionary \<open>pos_dist\<close> only, so the list it runs over is the one read at its
  start. An exception leaves the store as it is at that moment.
\<close>

fun count_in_store :: "ref \<Rightarrow> ref list \<Rightarrow> store \<Rightarrow> store \<times> py_error option" where
  "count_in_store pos_dist [] s = (s, None)"
| "count_in_store pos_dist (p # ps) s =
     (case dict_incr (position (player_objects s p)) (count_objects s pos_dist) of
        Inl e \<Rightarrow> (s, Some e)
      | Inr d \<Rightarrow>
          count_in_store pos_dist ps (s\<lparr>count_objects := (count_objects s)(pos_dist := d)\<rparr>))"

text \<open>Lines 93-109, the body of the loop over the teams.\<close>

definition team_output_in_store ::
  "ref \<Rightarrow> ref \<Rightarrow> nat \<times> ref \<Rightarrow> store \<Rightarrow> store \<times> py_error option" where
  "team_output_in_store all_players outputs = (\<lambda>(team_num, players) s.
     let s1 = list_extend all_players players s;
         team_rating = sum_list (map overall (players_of s1 players))
     in if length (list_objects s1 players) = 0 then (s1, Some ZeroDivisionError)
        else
          let avg_rating = team_rating / real (length (list_objects s1 players));
              (s2, pos_dist) = new_count [(''DEF'', 0), (''MID'', 0), (''ATT'', 0)] s1
          in case count_in_store pos_dist (list_objects s2 players) s2 of
               (s3, Some e) \<Rightarrow> (s3, Some e)
             | (s3, None) \<Rightarrow>
                 (outputs_append outputs
                    \<lparr>team_number = team_num + 1,
                     team_players = map (\<lambda>p. \<lparr>name = name p, overall = overall p,
                                               position = position p\<rparr>)
                                      (players_of s3 players),
                     average_rating = avg_rating,
                     position_distribution = count_objects s3 pos_dist,
                     total_rating = team_rating\<rparr> s3,
                  None))"

fun team_outputs_in_store ::
  "ref \<Rightarrow> ref \<Rightarrow> (nat \<times> ref) list \<Rightarrow> store \<Rightarrow> store \<times> py_error option" where
  "team_outputs_in_store all_players outputs [] s = (s, None)"
| "team_outputs_in_store all_players outputs (t # ts) s =
     (case team_output_in_store all_players outputs t s of
        (s', Some e) \<Rightarrow> (s', Some e)
      | (s', None) \<Rightarrow> team_outputs_in_store all_players outputs ts s')"

text \<open>
  Lines 88-119 on the dictionary under the reference \<open>teams_ref\<close>. \<^verbatim>\<open>sorted\<close> makes a list
  of its own from the items, which the loop runs over.
\<close>

definition statistics_in_store :: "ref \<Rightarrow> store \<Rightarrow> store \<times> (py_error + BalanceResponse)" where
  "statistics_in_store teams_ref s =
     (let (s1, all_players) = new_list s;
          (s2, outputs) = new_outputs s1
      in case team_outputs_in_store all_players outputs
                (sort_key fst (dict_objects s2 teams_ref)) s2 of
           (s3, Some e) \<Rightarrow> (s3, Inl e)
         | (s3, None) \<Rightarrow>
             if length (list_objects s3 all_players) = 0 then (s3, Inl ZeroDivisionError)
             else
               let team_means = map average_rating (output_objects s3 outputs)
               in (s3, Inr \<lparr>teams = output_objects s3 outputs,
                            overall_mean = sum_list (map overall (players_of s3 all_players))
                                           / real (length (list_objects s3 all_players)),
                            max_rating_difference = Max (set team_means) - Min (set team_means)\<rparr>))"

subsection \<open>\<^verbatim>\<open>print_teams\<close>\<close>

text \<open>
  Lines 193-195: \<^verbatim>\<open>players_by_pos[player.position].append(player)\<close>, and lines 197-202:
  reading \<^verbatim>\<open>players_by_pos[pos]\<close> puts an empty list under a key that is missing;
  \<^verbatim>\<open>sorted\<close> makes a list of its own.
\<close>

definition group_append :: "ref \<Rightarrow> string \<Rightarrow> ref \<Rightarrow> store \<Rightarrow> store" where
  "group_append g k p s =
     s\<lparr>group_objects := (group_objects s)(g := dict_append k p (group_objects s g))\<rparr>"

definition group_get :: "ref \<Rightarrow> string \<Rightarrow> store \<Rightarrow> store \<times> ref list" where
  "group_get g k s =
     (case map_of (group_objects s g) k of
        Some l \<Rightarrow> (s, l)
      | None \<Rightarrow> (s\<lparr>group_objects := (group_objects s)(g := group_objects s g @ [(k, [])])\<rparr>, []))"

fun sorted_groups ::
  "ref \<Rightarrow> string list \<Rightarrow> store \<Rightarrow> store \<times> (string \<times> Player list) list" where
  "sorted_groups g [] s = (s, [])"
| "sorted_groups g (pos # rest) s =
     (let (s1, l) = group_get g pos s;
          pos_players = sort_key (\<lambda>p. - overall (player_objects s1 p)) l;
          (s2, out) = sorted_groups g rest s1
      in (s2, (pos, map (player_objects s1) pos_players) # out))"

text \<open>
  Lines 205-209: \<^verbatim>\<open>pos_count[player.position] += 1\<close> on a \<^verbatim>\<open>defaultdict(int)\<close>, where a
  missing key counts from 0, and reading \<^verbatim>\<open>pos_count[pos]\<close>, which puts 0 under a key that
  is missing.
\<close>

fun default_incr :: "string \<Rightarrow> (string \<times> nat) list \<Rightarrow> (string \<times> nat) list" where
  "default_incr k [] = [(k, 1)]"
| "default_incr k ((k', n) # rest) =
     (if k' = k then (k', n + 1) # rest else (k', n) # default_incr k rest)"

definition count_incr :: "ref \<Rightarrow> string \<Rightarrow> store \<Rightarrow> store" where
  "count_incr c k s =
     s\<lparr>count_objects := (count_objects s)(c := default_incr k (count_objects s c))\<rparr>"

definition count_get :: "ref \<Rightarrow> string \<Rightarrow> store \<Rightarrow> store \<times> nat" where
  "count_get c k s =
     (case map_of (count_objects s c) k of
        Some n \<Rightarrow> (s, n)
      | None \<Rightarrow> (s\<lparr>count_objects := (count_objects s)(c := count_objects s c @ [(k, 0)])\<rparr>, 0))"

fun read_counts :: "ref \<Rightarrow> string list \<Rightarrow> store \<Rightarrow> store \<times> (string \<times> nat) list" where
  "read_counts c [] s = (s, [])"
| "read_counts c (pos # rest) s =
     (let (s1, n) = count_get c pos s;
          (s2, out) = read_counts c rest s1
      in (s2, (pos, n) # out))"

text \<open>Lines 182-212, the body of the loop over the teams.\<close>

definition team_report_in_store ::
  "ref \<Rightarrow> ref \<Rightarrow> nat \<times> ref \<Rightarrow> store \<Rightarrow> store \<times> (py_error + TeamReport)" where
  "team_report_in_store team_means all_players = (\<lambda>(team_num, players) s.
     if length (list_objects s players) = 0 then (s, Inl ZeroDivisionError)
     else
       let team_overall = sum_list (map overall (players_of s players))
                          / real (length (list_objects s players));
           s1 = floats_append team_means team_overall s;
           s2 = list_extend all_players players s1;
           (s3, players_by_pos) = new_group s2;
           s4 = fold (\<lambda>p s. group_append players_by_pos (position (player_objects s p)) p s)
                  (list_objects s3 players) s3;
           (s5, by_pos) = sorted_groups players_by_pos [''DEF'', ''MID'', ''ATT''] s4;
           (s6, pos_count) = new_count [] s5;
           s7 = fold (\<lambda>p s. count_incr pos_count (position (player_objects s p)) s)
                  (list_objects s6 players) s6;
           (s8, counts) = read_counts pos_count [''DEF'', ''MID'', ''ATT''] s7
       in (s8, Inr \<lparr>printed_team = team_num + 1,
                    printed_average = team_overall,
                    printed_players = by_pos,
                    printed_counts = counts,
                    printed_total = sum_list (map overall (players_of s8 players))\<rparr>))"

fun team_reports_in_store ::
  "ref \<Rightarrow> ref \<Rightarrow> (nat \<times> ref) list \<Rightarrow> store \<Rightarrow> store \<times> (py_error + TeamReport list)" where
  "team_reports_in_store team_means all_players [] s = (s, Inr [])"
| "team_reports_in_store team_means all_players (t # ts) s =
     (case team_report_in_store team_means all_players t s of
        (s1, Inl e) \<Rightarrow> (s1, Inl e)
      | (s1, Inr r) \<Rightarrow>
          (case team_reports_in_store team_means all_players ts s1 of
             (s2, Inl e) \<Rightarrow> (s2, Inl e)
           | (s2, Inr rs) \<Rightarrow> (s2, Inr (r # rs))))"

text \<open>Lines 171-225 on the dictionary under the reference \<open>teams_ref\<close>.\<close>

definition print_teams_in_store :: "ref \<Rightarrow> store \<Rightarrow> store \<times> (py_error + Report option)" where
  "print_teams_in_store teams_ref s =
     (if dict_objects s teams_ref = [] then (s, Inr None)
      else
        let (s1, team_means) = new_floats s;
            (s2, all_players) = new_list s1;
            sorted_teams = sort_key fst (dict_objects s2 teams_ref)
        in case team_reports_in_store team_means all_players sorted_teams s2 of
             (s3, Inl e) \<Rightarrow> (s3, Inl e)
           | (s3, Inr reports) \<Rightarrow>
               if length (list_objects s3 all_players) = 0 then (s3, Inl ZeroDivisionError)
               else
                 let means = float_objects s3 team_means
                 in (s3, Inr (Some \<lparr>printed_teams = reports,
                             printed_overall_mean =
                               sum_list (map overall (players_of s3 all_players))
                               / real (length (list_objects s3 all_players)),
                             printed_team_means = means,
                             printed_max_diff = Max (set means) - Min (set means)\<rparr>)))"

section \<open>Notions used in the proofs\<close>

text \<open>The list a dictionary holds for a key, empty for a key it does not have.\<close>

definition members :: "('k \<times> 'v list) list \<Rightarrow> 'k \<Rightarrow> 'v list" where
  "members t j = (case map_of t j of None \<Rightarrow> [] | Some l \<Rightarrow> l)"

text \<open>
  What \<^verbatim>\<open>defaultdict(list)\<close> with \<^verbatim>\<open>append\<close> maintains: every key once, no empty list.
\<close>

definition wf_teams :: "teams \<Rightarrow> bool" where
  "wf_teams t = (distinct (map fst t) \<and> [] \<notin> snd ` set t)"

text \<open>Player \<open>i\<close> has the value 1 for team \<open>j\<close>.\<close>

definition assigned :: "assignment \<Rightarrow> nat \<Rightarrow> nat \<Rightarrow> bool" where
  "assigned vals j = (\<lambda>i. vals (player_var i j) = Some 1)"

text \<open>Every team of the dictionary has a player, and all its players have the rating \<open>r\<close>.\<close>

definition rated :: "real \<Rightarrow> teams \<Rightarrow> bool" where
  "rated r t = (\<forall>(k, l) \<in> set t. l \<noteq> [] \<and> (\<forall>p \<in> set l. overall p = r))"

text \<open>The keys of the dictionary \<^verbatim>\<open>pos_dist\<close> of the API.\<close>

definition known_positions :: "string set" where
  "known_positions = {''DEF'', ''MID'', ''ATT''}"

text \<open>The solver never answers \<^verbatim>\<open>'Not Solved'\<close>.\<close>

definition never_stopped :: "solver \<Rightarrow> bool" where
  "never_stopped solve =
     (\<forall>prob time_limit. fst (solve prob time_limit) \<noteq> LpStatusNotSolved)"

text \<open>The order of \<^verbatim>\<open>self.players\<close> an attempt works on, after its shuffle.\<close>

definition shuffled :: "attempt_draws \<Rightarrow> run_state \<Rightarrow> Player list" where
  "shuffled d st = shuffle (shuffle_draws d) (players st)"

text \<open>The state \<^verbatim>\<open>balance_teams\<close> starts its loop in.\<close>

definition start :: "Player list \<Rightarrow> run_state" where
  "start ps = \<lparr>players = ps, best_teams = [], best_diff = Infinity, solver_calls = 0\<rparr>"

text \<open>
  The objects of the store \<open>s\<close> are in \<open>s'\<close> what they are in \<open>s\<close>: the players and the
  dictionaries of teams under every reference, every other object under the references
  below \<open>n\<close>. With \<open>n = allocated s\<close> these are all the objects of \<open>s\<close>.
\<close>

definition unchanged :: "nat \<Rightarrow> store \<Rightarrow> store \<Rightarrow> bool" where
  "unchanged n s s' =
     (player_objects s' = player_objects s
      \<and> dict_objects s' = dict_objects s
      \<and> allocated s \<le> allocated s'
      \<and> (\<forall>r<n.
            list_objects s' r = list_objects s r
            \<and> count_objects s' r = count_objects s r
            \<and> group_objects s' r = group_objects s r
            \<and> output_objects s' r = output_objects s r
            \<and> float_objects s' r = float_objects s r))"

text \<open>The lists of the dictionary under \<open>t\<close> are objects in use.\<close>

definition lists_allocated :: "store \<Rightarrow> ref \<Rightarrow> bool" where
  "lists_allocated s t = (\<forall>(j, l) \<in> set (dict_objects s t). l < allocated s)"

text \<open>The count a \<^verbatim>\<open>defaultdict(int)\<close> holds for a key, 0 for a key it does not have.\<close>

definition count_of :: "(string \<times> nat) list \<Rightarrow> string \<Rightarrow> nat" where
  "count_of d k = (case map_of d k of None \<Rightarrow> 0 | Some n \<Rightarrow> n)"

section \<open>Concrete inputs\<close>

definition mk_player :: "string \<Rightarrow> real \<Rightarrow> string \<Rightarrow> Player" where
  "mk_player n r p = \<lparr>name = n, overall = r, position = p\<rparr>"

text \<open>Draws that are all zero: the shuffle rotates the list, and there is no slack.\<close>

definition zero_draws :: attempt_draws where
  "zero_draws = \<lparr>shuffle_draws = (\<lambda>i. 0), jitter_draws = (\<lambda>i. 0)\<rparr>"

text \<open>Every player in team 0.\<close>

definition first_team :: assignment where
  "first_team v = (case v of player_var i j \<Rightarrow> if j = 0 then Some 1 else Some 0
                   | max_diff_var \<Rightarrow> Some 0)"

text \<open>A solver that finds nothing, and one that answers \<open>first_team\<close> whatever the problem.\<close>

definition failing_solver :: solver where
  "failing_solver prob time_limit = (LpStatusInfeasible, (\<lambda>v. None))"

definition first_team_solver :: solver where
  "first_team_solver prob time_limit = (LpStatusOptimal, first_team)"

text \<open>Twelve players, four of each position, and the solution "even places, odd places".\<close>

definition roster12 :: "Player list" where
  "roster12 =
     [mk_player ''d1'' 4 ''DEF'', mk_player ''d2'' 3 ''DEF'', mk_player ''d3'' 3.5 ''DEF'',
      mk_player ''d4'' 2 ''DEF'', mk_player ''m1'' 4 ''MID'', mk_player ''m2'' 3 ''MID'',
      mk_player ''m3'' 2.5 ''MID'', mk_player ''m4'' 2 ''MID'', mk_player ''a1'' 4 ''ATT'',
      mk_player ''a2'' 3.5 ''ATT'', mk_player ''a3'' 3 ''ATT'', mk_player ''a4'' 2 ''ATT'']"

definition alternate :: assignment where
  "alternate v = (case v of player_var i j \<Rightarrow> if i mod 2 = j then Some 1 else Some 0
                  | max_diff_var \<Rightarrow> Some 3)"

definition roster12_teams :: teams where
  "roster12_teams =
     [(0, [mk_player ''d1'' 4 ''DEF'', mk_player ''d3'' 3.5 ''DEF'', mk_player ''m1'' 4 ''MID'',
           mk_player ''m3'' 2.5 ''MID'', mk_player ''a1'' 4 ''ATT'', mk_player ''a3'' 3 ''ATT'']),
      (1, [mk_player ''d2'' 3 ''DEF'', mk_player ''d4'' 2 ''DEF'', mk_player ''m2'' 3 ''MID'',
           mk_player ''m4'' 2 ''MID'', mk_player ''a2'' 3.5 ''ATT'', mk_player ''a4'' 2 ''ATT''])]"

text \<open>Draws that leave the list as it is: position \<open>i\<close> is swapped with itself.\<close>

definition identity_draws :: attempt_draws where
  "identity_draws = \<lparr>shuffle_draws = (\<lambda>i. i), jitter_draws = (\<lambda>i. 0)\<rparr>"

text \<open>A solver that answers a fixed candidate where it is a solution of the problem.\<close>

definition checked_solver :: "assignment \<Rightarrow> solver" where
  "checked_solver candidate prob time_limit =
     (if feasible prob candidate then (LpStatusOptimal, candidate)
      else (LpStatusInfeasible, (\<lambda>v. None)))"

text \<open>
  For \<open>roster12\<close> in its order, without slack: a best solution, with the ratings 18 and
  18.5 (the target 18.25 cannot be met by whole players), and a solution of the linear
  relaxation, which meets the target by dividing the players \<open>a3\<close> and \<open>a4\<close> between the
  two teams. Each with the dictionary line 109-112 read from it.
\<close>

definition balanced :: assignment where
  "balanced v = (case v of
       player_var i j \<Rightarrow>
         if (if i mod 4 = 0 \<or> i mod 4 = 3 then 0 else 1) = j then Some 1 else Some 0
     | max_diff_var \<Rightarrow> Some (1 / 4))"

definition relaxed :: assignment where
  "relaxed v = (case v of
       player_var i j \<Rightarrow>
         if i \<in> {0, 1, 5, 7, 8} then (if j = 1 then Some 1 else Some 0)
         else if i \<in> {2, 3, 4, 6, 9} then (if j = 0 then Some 1 else Some 0)
         else if i = 10 then (if j = 0 then Some (3 / 4) else Some (1 / 4))
         else (if j = 0 then Some (1 / 4) else Some (3 / 4))
     | max_diff_var \<Rightarrow> Some 0)"

definition balanced_teams :: teams where
  "balanced_teams =
     [(0, [mk_player ''d1'' 4 ''DEF'', mk_player ''d4'' 2 ''DEF'', mk_player ''m1'' 4 ''MID'',
           mk_player ''m4'' 2 ''MID'', mk_player ''a1'' 4 ''ATT'', mk_player ''a4'' 2 ''ATT'']),
      (1, [mk_player ''d2'' 3 ''DEF'', mk_player ''d3'' 3.5 ''DEF'', mk_player ''m2'' 3 ''MID'',
           mk_player ''m3'' 2.5 ''MID'', mk_player ''a2'' 3.5 ''ATT'', mk_player ''a3'' 3 ''ATT''])]"

definition partial_teams :: teams where
  "partial_teams =
     [(1, [mk_player ''d1'' 4 ''DEF'', mk_player ''d2'' 3 ''DEF'', mk_player ''m2'' 3 ''MID'',
           mk_player ''m4'' 2 ''MID'', mk_player ''a1'' 4 ''ATT'']),
      (0, [mk_player ''d3'' 3.5 ''DEF'', mk_player ''d4'' 2 ''DEF'', mk_player ''m1'' 4 ''MID'',
           mk_player ''m3'' 2.5 ''MID'', mk_player ''a2'' 3.5 ''ATT''])]"

text \<open>
  A solver that is stopped at once when it is given no time: it answers \<^verbatim>\<open>'Not Solved'\<close>
  with the values of the relaxation. Given time, it answers as \<open>checked_solver\<close>.
\<close>

definition stopped_solver :: "assignment \<Rightarrow> assignment \<Rightarrow> solver" where
  "stopped_solver solution relaxation prob time_limit =
     (if time_limit \<le> 0 then (LpStatusNotSolved, relaxation)
      else checked_solver solution prob time_limit)"

text \<open>
  The twelve players with the rating 3 each, and the twelve with two goalkeepers added,
  each with the teams of "even places, odd places".
\<close>

definition equal12 :: "Player list" where
  "equal12 = map (\<lambda>p. p\<lparr>overall := 3\<rparr>) roster12"

definition equal12_teams :: teams where
  "equal12_teams = map (\<lambda>(j, l). (j, map (\<lambda>p. p\<lparr>overall := 3\<rparr>) l)) roster12_teams"

definition roster14 :: "Player list" where
  "roster14 = roster12 @ [mk_player ''g1'' 3 ''GK'', mk_player ''g2'' 3.5 ''GK'']"

definition roster14_teams :: teams where
  "roster14_teams =
     [(0, snd (roster12_teams ! 0) @ [mk_player ''g1'' 3 ''GK'']),
      (1, snd (roster12_teams ! 1) @ [mk_player ''g2'' 3.5 ''GK''])]"

text \<open>
  A store with two players, a list for each, and under the reference 4 the dictionary
  \<^verbatim>\<open>{1: [b], 0: [a]}\<close>.
\<close>

definition store2 :: store where
  "store2 =
     \<lparr>player_objects = (\<lambda>r. if r = 0 then mk_player ''a'' 3 ''DEF'' else mk_player ''b'' 4 ''MID''),
      list_objects = (\<lambda>r. if r = 2 then [0] else if r = 3 then [1] else []),
      dict_objects = (\<lambda>r. if r = 4 then [(1, 3), (0, 2)] else []),
      count_objects = (\<lambda>r. []),
      group_objects = (\<lambda>r. []),
      output_objects = (\<lambda>r. []),
      float_objects = (\<lambda>r. []),
      allocated = 5\<rparr>"

section \<open>Comparing rating differences\<close>

lemma diff_less_irrefl: "\<not> diff_less d d"
  by (cases d) simp_all

lemma diff_le_refl: "diff_le d d"
  by (cases d) simp_all

lemma diff_le_trans: "diff_le a b \<Longrightarrow> diff_le b c \<Longrightarrow> diff_le a c"
  by (cases a; cases b; cases c) simp_all

lemma diff_less_imp_le: "diff_less a b \<Longrightarrow> diff_le a b"
  by (cases a; cases b) simp_all

section \<open>The extracted dictionary\<close>

lemma keys_dict_append: "fst ` set (dict_append j p t) = insert j (fst ` set t)"
  by (induction j p t rule: dict_append.induct) auto

lemma wf_dict_append: "wf_teams t \<Longrightarrow> wf_teams (dict_append j p t)"
proof (induction t)
  case Nil
  then show ?case by (simp add: wf_teams_def)
next
  case (Cons a t)
  obtain k l where a: "a = (k, l)" by (cases a)
  from Cons.prems have wt: "wf_teams t" and k: "k \<notin> fst ` set t" and l: "l \<noteq> []"
    by (auto simp: wf_teams_def a)
  show ?case
  proof (cases "k = j")
    case True
    with wt k l show ?thesis by (auto simp: wf_teams_def a)
  next
    case False
    from Cons.IH[OF wt] have "wf_teams (dict_append j p t)" .
    moreover have "k \<notin> fst ` set (dict_append j p t)"
      using k False by (simp add: keys_dict_append)
    ultimately show ?thesis using False l by (auto simp: wf_teams_def a)
  qed
qed

lemma members_dict_append:
  "members (dict_append j p t) k = (if k = j then members t j @ [p] else members t k)"
  by (induction t) (auto simp: members_def)

lemma wf_members_iff: "wf_teams t \<Longrightarrow> k \<in> fst ` set t \<longleftrightarrow> members t k \<noteq> []"
proof -
  assume wf: "wf_teams t"
  show ?thesis
  proof (cases "map_of t k")
    case None
    then have "k \<notin> fst ` set t" by (simp add: map_of_eq_None_iff)
    with None show ?thesis by (simp add: members_def)
  next
    case (Some l)
    then have kl: "(k, l) \<in> set t" by (rule map_of_SomeD)
    have "snd (k, l) \<in> snd ` set t" using kl by (rule imageI)
    then have in_l: "l \<in> snd ` set t" by simp
    have "fst (k, l) \<in> fst ` set t" using kl by (rule imageI)
    then have in_k: "k \<in> fst ` set t" by simp
    from wf have "[] \<notin> snd ` set t" by (simp add: wf_teams_def)
    with in_l have "l \<noteq> []" by blast
    note this in_k
    then show ?thesis using Some by (simp add: members_def)
  qed
qed

lemma wf_nil_iff: "wf_teams t \<Longrightarrow> t = [] \<longleftrightarrow> (\<forall>k. members t k = [])"
proof
  assume "t = []"
  then show "\<forall>k. members t k = []" by (simp add: members_def)
next
  assume wf: "wf_teams t" and e: "\<forall>k. members t k = []"
  show "t = []"
  proof (cases t)
    case Nil
    then show ?thesis .
  next
    case (Cons a t')
    then have "fst a \<in> fst ` set t" by simp
    then have "members t (fst a) \<noteq> []" using wf_members_iff[OF wf] by simp
    with e show ?thesis by simp
  qed
qed

lemma inner_wf:
  "wf_teams t \<Longrightarrow> wf_teams (fold (\<lambda>j teams. if c j then dict_append j p teams else teams) js t)"
  by (induction js arbitrary: t) (auto simp: wf_dict_append)

lemma inner_members:
  "distinct js \<Longrightarrow>
   members (fold (\<lambda>j teams. if c j then dict_append j p teams else teams) js t) k
   = members t k @ (if k \<in> set js \<and> c k then [p] else [])"
  by (induction js arbitrary: t) (auto simp: members_dict_append)

lemma extract_teams_upto:
  "wf_teams (fold (\<lambda>i. fold (\<lambda>j teams.
                 if vals (player_var i j) = Some 1 then dict_append j (ps ! i) teams
                 else teams) [0..<nat num_teams]) [0..<n] [])
   \<and> (\<forall>k. members (fold (\<lambda>i. fold (\<lambda>j teams.
                 if vals (player_var i j) = Some 1 then dict_append j (ps ! i) teams
                 else teams) [0..<nat num_teams]) [0..<n] []) k
        = (if k < nat num_teams then map ((!) ps) (filter (assigned vals k) [0..<n]) else []))"
  (is "wf_teams (?run n) \<and> (\<forall>k. members (?run n) k = ?expected n k)")
proof (induction n)
  case 0
  show ?case by (simp add: wf_teams_def members_def)
next
  case (Suc n)
  let ?inner = "fold (\<lambda>j teams.
                 if vals (player_var n j) = Some 1 then dict_append j (ps ! n) teams
                 else teams) [0..<nat num_teams]"
  have step: "?run (Suc n) = ?inner (?run n)" by simp
  from Suc.IH have wf: "wf_teams (?run n)" and mem: "\<And>k. members (?run n) k = ?expected n k"
    by blast+
  have "wf_teams (?inner (?run n))" using wf by (rule inner_wf)
  moreover have "members (?inner (?run n)) k = ?expected (Suc n) k" for k
    unfolding inner_members[OF distinct_upt] mem by (simp add: assigned_def)
  ultimately show ?case unfolding step by blast
qed

lemma wf_extract_teams: "wf_teams (extract_teams ps num_teams vals)"
  using extract_teams_upto[of vals ps num_teams "length ps"] by (simp add: extract_teams_def)

lemma members_extract_teams:
  "members (extract_teams ps num_teams vals) k
   = (if k < nat num_teams then map ((!) ps) (filter (assigned vals k) [0..<length ps]) else [])"
  using extract_teams_upto[of vals ps num_teams "length ps"] by (simp add: extract_teams_def)

lemma extract_teams_none:
  assumes "\<And>i j. i < length ps \<Longrightarrow> j < nat num_teams \<Longrightarrow> vals (player_var i j) \<noteq> Some 1"
  shows "extract_teams ps num_teams vals = []"
proof -
  have "members (extract_teams ps num_teams vals) k = []" for k
    using assms by (auto simp: members_extract_teams assigned_def filter_empty_conv)
  then show ?thesis using wf_nil_iff[OF wf_extract_teams] by blast
qed

lemma mset_concat_teams:
  "distinct (map fst t) \<Longrightarrow>
   mset (concat (map snd t)) = (\<Sum>k \<in> fst ` set t. mset (members t k))"
proof (induction t)
  case Nil
  then show ?case by simp
next
  case (Cons a t)
  obtain k l where a: "a = (k, l)" by (cases a)
  from Cons.prems have d: "distinct (map fst t)" and k: "k \<notin> fst ` set t" by (auto simp: a)
  have same: "members (a # t) k' = members t k'" if "k' \<in> fst ` set t" for k'
    using that k by (auto simp: members_def a)
  have "(\<Sum>k' \<in> fst ` set (a # t). mset (members (a # t) k'))
        = mset (members (a # t) k) + (\<Sum>k' \<in> fst ` set t. mset (members (a # t) k'))"
    using k by (simp add: a)
  also have "\<dots> = mset l + (\<Sum>k' \<in> fst ` set t. mset (members t k'))"
    using same by (simp add: members_def a)
  finally show ?case using Cons.IH[OF d] by (simp add: a)
qed

section \<open>The divisibility check\<close>

text \<open>
  Claim C3. When the number of players is not a multiple of the number of teams,
  \<^verbatim>\<open>balance_teams\<close> returns the empty dictionary at once: the solver has been called zero
  times and \<^verbatim>\<open>self.players\<close> is as it was. (Python's \<^verbatim>\<open>%\<close> raises for a divisor 0, so
  the remainder exists for \<open>num_teams \<noteq> 0\<close> only.)
\<close>

theorem balance_teams_not_divisible:
  assumes "num_teams \<noteq> 0" and "int (length ps) mod num_teams \<noteq> 0"
  shows "balance_teams solve rng ps num_teams time_limit num_attempts
         = Inr \<lparr>players = ps, best_teams = [], best_diff = Infinity, solver_calls = 0\<rparr>"
  using assms by (simp add: balance_teams_def)

theorem balance_teams_not_divisible_witness:
  "balance_teams first_team_solver (\<lambda>k. zero_draws)
     (map (\<lambda>r. mk_player ''p'' r ''DEF'') [1, 2, 3, 4, 5, 1, 2, 3, 4, 5]) 3 30 5
   = Inr \<lparr>players = map (\<lambda>r. mk_player ''p'' r ''DEF'') [1, 2, 3, 4, 5, 1, 2, 3, 4, 5],
          best_teams = [], best_diff = Infinity, solver_calls = 0\<rparr>"
  using balance_teams_not_divisible[of 3
      "map (\<lambda>r. mk_player ''p'' r ''DEF'') [1, 2, 3, 4, 5, 1, 2, 3, 4, 5]"
      first_team_solver "\<lambda>k. zero_draws" 30 5]
  by simp

section \<open>Keeping the best attempt\<close>

lemma try_one_player:
  "try_balance_teams first_team_solver [mk_player ''a'' 3 ''DEF''] 1 6 (\<lambda>i. 0)
   = Inr ([(0, [mk_player ''a'' 3 ''DEF''])], Finite 0)"
  by (simp add: try_balance_teams_def first_team_solver_def extract_teams_def first_team_def
      max_rating_diff_def team_ratings_def)

text \<open>
  Claim C4. An attempt that returns the dictionary \<open>found\<close> with the difference
  \<open>max_diff\<close> replaces \<open>best_teams\<close> and \<open>best_diff\<close> exactly when \<open>found\<close> is not empty
  and \<open>max_diff\<close> is strictly smaller than \<open>best_diff\<close>; with \<open>max_diff\<close> equal to
  \<open>best_diff\<close> both stay as they were.
\<close>

theorem attempt_keeps_best:
  assumes "try_balance_teams solve (shuffled d st) num_teams time_limit (jitter_draws d)
           = Inr (found, max_diff)"
  shows "\<exists>st'. attempt solve num_teams time_limit d st = Inr st'
           \<and> (best_teams st', best_diff st')
               = (if found \<noteq> [] \<and> diff_less max_diff (best_diff st)
                  then (found, max_diff) else (best_teams st, best_diff st))
           \<and> (max_diff = best_diff st
                \<longrightarrow> best_teams st' = best_teams st \<and> best_diff st' = best_diff st)"
  using assms by (auto simp: attempt_def shuffled_def diff_less_irrefl)

theorem attempt_keeps_best_witness:
  "\<exists>st'. attempt first_team_solver 1 6 zero_draws (start [mk_player ''a'' 3 ''DEF'']) = Inr st'
         \<and> (best_teams st', best_diff st') = ([(0, [mk_player ''a'' 3 ''DEF''])], Finite 0)"
proof -
  have "try_balance_teams first_team_solver
          (shuffled zero_draws (start [mk_player ''a'' 3 ''DEF''])) 1 6 (jitter_draws zero_draws)
        = Inr ([(0, [mk_player ''a'' 3 ''DEF''])], Finite 0)"
    using try_one_player by (simp add: shuffled_def start_def zero_draws_def shuffle_def)
  from attempt_keeps_best[OF this] show ?thesis by (simp add: start_def)
qed

section \<open>The shuffle and the loop\<close>

lemma length_swap_at: "length (swap_at i j xs) = length xs"
  by (simp add: swap_at_def)

lemma mset_swap_at: "i < length xs \<Longrightarrow> j < length xs \<Longrightarrow> mset (swap_at i j xs) = mset xs"
  unfolding swap_at_def by (rule mset_swap)

lemma shuffle_steps:
  "\<forall>i \<in> set is. i < length xs \<Longrightarrow>
   length (fold (\<lambda>i ys. swap_at i (draw i mod (i + 1)) ys) is xs) = length xs
   \<and> mset (fold (\<lambda>i ys. swap_at i (draw i mod (i + 1)) ys) is xs) = mset xs"
proof (induction "is" arbitrary: xs)
  case Nil
  then show ?case by simp
next
  case (Cons i "is")
  let ?ys = "swap_at i (draw i mod (i + 1)) xs"
  from Cons.prems have i: "i < length xs" by simp
  have "draw i mod (i + 1) < i + 1" by simp
  with i have j: "draw i mod (i + 1) < length xs" by linarith
  have len: "length ?ys = length xs" by (rule length_swap_at)
  have ms: "mset ?ys = mset xs" using i j by (rule mset_swap_at)
  from Cons.prems have "\<forall>k \<in> set is. k < length ?ys" by (simp add: length_swap_at)
  from Cons.IH[OF this] show ?case using len ms by simp
qed

lemma length_shuffle: "length (shuffle draw xs) = length xs"
  unfolding shuffle_def using shuffle_steps[of "rev [1..<length xs]" xs draw] by simp

lemma mset_shuffle: "mset (shuffle draw xs) = mset xs"
  unfolding shuffle_def using shuffle_steps[of "rev [1..<length xs]" xs draw] by simp

lemma try_balance_teams_total:
  "num_teams \<noteq> 0 \<Longrightarrow> \<exists>r. try_balance_teams solve ps num_teams time_limit jitter = Inr r"
  by (simp add: try_balance_teams_def Let_def split: prod.splits)

lemma attempt_total:
  "num_teams \<noteq> 0 \<Longrightarrow> \<exists>st'. attempt solve num_teams time_limit d st = Inr st'"
  using try_balance_teams_total[of num_teams solve "shuffled d st" time_limit "jitter_draws d"]
  by (auto simp: attempt_def shuffled_def Let_def split: prod.splits)

lemma attempts_total:
  "num_teams \<noteq> 0 \<Longrightarrow> \<exists>st'. attempts solve num_teams time_limit ds st = Inr st'"
proof (induction ds arbitrary: st)
  case Nil
  then show ?case by simp
next
  case (Cons d ds)
  from attempt_total[OF Cons.prems] obtain st1
    where "attempt solve num_teams time_limit d st = Inr st1" by blast
  with Cons.IH[OF Cons.prems, of st1] show ?case by simp
qed

lemma attempts_append:
  "attempts solve num_teams time_limit (ds @ es) st
   = (case attempts solve num_teams time_limit ds st of
        Inl e \<Rightarrow> Inl e
      | Inr st' \<Rightarrow> attempts solve num_teams time_limit es st')"
  by (induction ds arbitrary: st) (auto split: sum.splits)

lemma attempts_invariant:
  assumes "attempts solve num_teams time_limit ds st = Inr st'"
    and "I st"
    and "\<And>d s s'. I s \<Longrightarrow> attempt solve num_teams time_limit d s = Inr s' \<Longrightarrow> I s'"
  shows "I st'"
  using assms(1,2)
proof (induction ds arbitrary: st)
  case Nil
  then show ?case by simp
next
  case (Cons d ds)
  from Cons.prems(1) obtain st1 where a: "attempt solve num_teams time_limit d st = Inr st1"
    and r: "attempts solve num_teams time_limit ds st1 = Inr st'"
    by (auto split: sum.splits)
  from assms(3)[OF Cons.prems(2) a] have "I st1" .
  from Cons.IH[OF r this] show ?case .
qed

lemma attempt_cases:
  assumes "attempt solve num_teams time_limit d st = Inr st'"
  obtains found max_diff where
    "try_balance_teams solve (shuffled d st) num_teams time_limit (jitter_draws d)
     = Inr (found, max_diff)"
    "players st' = shuffled d st"
    "solver_calls st' = solver_calls st + 1"
    "(best_teams st', best_diff st')
     = (if found \<noteq> [] \<and> diff_less max_diff (best_diff st)
        then (found, max_diff) else (best_teams st, best_diff st))"
  using assms
  by (auto simp: attempt_def shuffled_def Let_def split: sum.splits prod.splits if_splits)

lemma attempt_diff_le:
  assumes "attempt solve num_teams time_limit d st = Inr st'"
  shows "diff_le (best_diff st') (best_diff st)"
  using assms
  by (elim attempt_cases) (auto simp: diff_le_refl diff_less_imp_le split: if_splits)

lemma attempts_diff_le:
  assumes "attempts solve num_teams time_limit ds st = Inr st'"
  shows "diff_le (best_diff st') (best_diff st)"
  by (rule attempts_invariant[OF assms, where I = "\<lambda>s. diff_le (best_diff s) (best_diff st)"])
     (auto simp: diff_le_refl intro: diff_le_trans attempt_diff_le)

lemma try_budget_cong:
  assumes "\<forall>prob. solve prob b' = solve prob b"
  shows "try_balance_teams solve ps num_teams b' jitter
         = try_balance_teams solve ps num_teams b jitter"
  using assms by (simp add: try_balance_teams_def)

lemma attempt_budget_cong:
  assumes "\<forall>prob. solve prob b' = solve prob b"
  shows "attempt solve num_teams b' d st = attempt solve num_teams b d st"
  by (simp add: attempt_def try_budget_cong[OF assms])

lemma attempts_budget_cong:
  assumes "\<forall>prob. solve prob b' = solve prob b"
  shows "attempts solve num_teams b' ds st = attempts solve num_teams b ds st"
  by (induction ds arbitrary: st) (auto simp: attempt_budget_cong[OF assms] split: sum.splits)


section \<open>The concrete inputs evaluated\<close>

lemma swap_at_same: "swap_at i i xs = xs"
  by (simp add: swap_at_def)

lemma shuffle_identity: "shuffle (\<lambda>i. i) xs = xs"
proof -
  have "fold (\<lambda>i ys. swap_at i (i mod (i + 1)) ys) is ys = ys" for "is" and ys :: "'a list"
    by (induction "is" arbitrary: ys) (simp_all add: swap_at_same)
  then show ?thesis by (simp add: shuffle_def)
qed

lemma roster12_feasible: "feasible (build_problem roster12 2 (\<lambda>i. 0)) alternate"
  by code_simp

lemma roster12_extract: "extract_teams roster12 2 alternate = roster12_teams"
  by code_simp

lemma roster12_diff: "max_rating_diff roster12_teams = 11 / 12"
  by code_simp

lemma length_roster12: "length roster12 = 12"
  by (simp add: roster12_def)

lemma checked_solver_contract: "solver_contract (checked_solver candidate)"
  by (simp add: solver_contract_def checked_solver_def)

lemma checked_solver_never_stopped: "never_stopped (checked_solver candidate)"
  by (simp add: never_stopped_def checked_solver_def)

lemma balanced_feasible: "feasible (build_problem roster12 2 (\<lambda>i. 0)) balanced"
  by code_simp

lemma balanced_extract: "extract_teams roster12 2 balanced = balanced_teams"
  by code_simp

lemma balanced_diff: "max_rating_diff balanced_teams = 1 / 12"
  by code_simp

text \<open>
  The values of the relaxation satisfy every constraint and the bound of \<^verbatim>\<open>max_diff\<close>, but
  they are not all 0 or 1.
\<close>

lemma relaxed_holds:
  "list_all (holds relaxed) (constraints (build_problem roster12 2 (\<lambda>i. 0)))"
  by code_simp

lemma relaxed_bound:
  "list_all (above_bound relaxed) (lower_bounded_vars (build_problem roster12 2 (\<lambda>i. 0)))"
  by code_simp

lemma relaxed_not_feasible: "\<not> feasible (build_problem roster12 2 (\<lambda>i. 0)) relaxed"
  by code_simp

lemma relaxed_extract: "extract_teams roster12 2 relaxed = partial_teams"
  by code_simp

lemma partial_diff: "max_rating_diff partial_teams = 1 / 10"
  by code_simp

lemma partial_nonempty: "partial_teams \<noteq> []"
  by (simp add: partial_teams_def)

lemma balanced_nonempty: "balanced_teams \<noteq> []"
  by (simp add: balanced_teams_def)

lemma try_stopped:
  "try_balance_teams (stopped_solver solution relaxed) roster12 2 0 (\<lambda>i. 0)
   = Inr (partial_teams, Finite (1 / 10))"
  by (simp add: try_balance_teams_def stopped_solver_def relaxed_extract partial_diff
      partial_nonempty)

lemma try_in_time:
  "try_balance_teams (stopped_solver balanced relaxation) roster12 2 1 (\<lambda>i. 0)
   = Inr (balanced_teams, Finite (1 / 12))"
  by (simp add: try_balance_teams_def stopped_solver_def checked_solver_def balanced_feasible
      balanced_extract balanced_diff balanced_nonempty)

lemma upt_two: "[0..<2] = [0, Suc 0]"
  by (simp add: upt_conv_Cons numeral_2_eq_2)

lemma run_stopped:
  "balance_teams (stopped_solver solution relaxed) (\<lambda>k. identity_draws) roster12 2 1 2
   = Inr \<lparr>players = roster12, best_teams = partial_teams, best_diff = Finite (1 / 10),
          solver_calls = 2\<rparr>"
  by (simp add: balance_teams_def length_roster12 upt_two attempt_def identity_draws_def
      shuffle_identity try_stopped partial_nonempty)

lemma run_in_time:
  "balance_teams (stopped_solver balanced relaxation) (\<lambda>k. identity_draws) roster12 2 1 1
   = Inr \<lparr>players = roster12, best_teams = balanced_teams, best_diff = Finite (1 / 12),
          solver_calls = 1\<rparr>"
  by (simp add: balance_teams_def length_roster12 attempt_def identity_draws_def
      shuffle_identity try_in_time balanced_nonempty)

lemma roster12_nonempty: "roster12_teams \<noteq> []"
  by (simp add: roster12_teams_def)

lemma try_roster12:
  "try_balance_teams (checked_solver alternate) roster12 2 time_limit (\<lambda>i. 0)
   = Inr (roster12_teams, Finite (11 / 12))"
  by (simp add: try_balance_teams_def checked_solver_def roster12_feasible roster12_extract
      roster12_diff roster12_nonempty)

lemma attempt_roster12:
  "attempt (checked_solver alternate) 2 time_limit identity_draws (start roster12)
   = Inr \<lparr>players = roster12, best_teams = roster12_teams, best_diff = Finite (11 / 12),
          solver_calls = 1\<rparr>"
  by (simp add: attempt_def identity_draws_def shuffle_identity start_def try_roster12
      roster12_nonempty)

lemma run_roster12:
  "balance_teams (checked_solver alternate) (\<lambda>k. identity_draws) roster12 2 30 1
   = Inr \<lparr>players = roster12, best_teams = roster12_teams, best_diff = Finite (11 / 12),
          solver_calls = 1\<rparr>"
  using attempt_roster12[of "30 div 1"]
  by (simp add: balance_teams_def length_roster12 start_def)

section \<open>More attempts\<close>

text \<open>
  Claim C5, as amended. \<^verbatim>\<open>time_limit\<close> is the budget of the whole run: line 154 gives each
  attempt \<^verbatim>\<open>time_limit // num_attempts\<close>, so a run with more attempts gives the solver less
  time for each. (The docstring names \<^verbatim>\<open>time_limit\<close> the maximum time of an attempt; the
  quotient never exceeds it, and the division is written out in the call.) When the
  solver answers under the smaller limit as it does under the larger one, a run with
  \<open>num_attempts'\<close> attempts, \<open>num_attempts \<le> num_attempts'\<close>, with the same draws, ends
  with a best difference that is at most the one of the run with \<open>num_attempts\<close>.
\<close>

theorem more_attempts_not_worse:
  assumes le: "num_attempts \<le> num_attempts'"
    and same: "0 < num_attempts \<Longrightarrow>
               \<forall>prob. solve prob (time_limit div num_attempts')
                     = solve prob (time_limit div num_attempts)"
    and run: "balance_teams solve rng ps num_teams time_limit num_attempts = Inr st"
  shows "\<exists>st'. balance_teams solve rng ps num_teams time_limit num_attempts' = Inr st'
           \<and> diff_le (best_diff st') (best_diff st)"
proof -
  from run have nz: "num_teams \<noteq> 0" by (auto simp: balance_teams_def split: if_splits)
  show ?thesis
  proof (cases "int (length ps) mod num_teams = 0")
    case False
    with nz run show ?thesis by (auto simp: balance_teams_def diff_le_refl)
  next
    case True
    let ?b = "time_limit div num_attempts" and ?b' = "time_limit div num_attempts'"
    let ?pre = "map rng [0..<nat num_attempts]"
    let ?post = "map rng [nat num_attempts..<nat num_attempts']"
    from le have "[0..<nat num_attempts'] = [0..<nat num_attempts] @ [nat num_attempts..<nat num_attempts']"
      by (metis le_add_diff_inverse nat_mono upt_add_eq_append zero_le)
    then have split: "map rng [0..<nat num_attempts'] = ?pre @ ?post" by simp
    from run nz True have r: "attempts solve num_teams ?b ?pre (start ps) = Inr st"
      by (simp add: balance_teams_def start_def)
    have pre: "attempts solve num_teams ?b' ?pre (start ps) = Inr st"
    proof (cases "0 < num_attempts")
      case pos: True
      from same pos have "\<forall>prob. solve prob ?b' = solve prob ?b" by blast
      from attempts_budget_cong[where solve = solve and b' = "?b'" and b = "?b", OF this] r
      show ?thesis by simp
    next
      case False
      with r show ?thesis by simp
    qed
    from attempts_total[OF nz] obtain st'
      where post: "attempts solve num_teams ?b' ?post st = Inr st'" by blast
    have "balance_teams solve rng ps num_teams time_limit num_attempts' = Inr st'"
      using nz True by (simp add: balance_teams_def split attempts_append pre post start_def[symmetric])
    moreover have "diff_le (best_diff st') (best_diff st)" using post by (rule attempts_diff_le)
    ultimately show ?thesis by blast
  qed
qed

theorem more_attempts_not_worse_witness:
  "\<exists>st'. balance_teams (checked_solver alternate) (\<lambda>k. identity_draws) roster12 2 30 2 = Inr st'
         \<and> diff_le (best_diff st') (Finite (11 / 12))"
proof -
  have same: "\<forall>prob. checked_solver alternate prob (30 div 2) = checked_solver alternate prob (30 div 1)"
    by (simp add: checked_solver_def)
  have "(1::int) \<le> 2" by simp
  from more_attempts_not_worse[OF this same run_roster12] show ?thesis by simp
qed


text \<open>
  Claim C5 as stated fails. With \<^verbatim>\<open>time_limit = 1\<close>, one attempt has the limit
  \<^verbatim>\<open>1 // 1 = 1\<close>: the solver finishes, and the best difference is 1/12. Two attempts have
  the limit \<^verbatim>\<open>1 // 2 = 0\<close> each: the solver is stopped, answers \<^verbatim>\<open>'Not Solved'\<close>, and
  line 108 reads two teams of five players from its values, with the difference 1/10,
  in both attempts. The run with more attempts ends with the larger difference.
\<close>

theorem more_attempts_worse_counterexample:
  "balance_teams (stopped_solver balanced relaxed) (\<lambda>k. identity_draws) roster12 2 1 1
   = Inr \<lparr>players = roster12, best_teams = balanced_teams, best_diff = Finite (1 / 12),
          solver_calls = 1\<rparr>
   \<and> balance_teams (stopped_solver balanced relaxed) (\<lambda>k. identity_draws) roster12 2 1 2
   = Inr \<lparr>players = roster12, best_teams = partial_teams, best_diff = Finite (1 / 10),
          solver_calls = 2\<rparr>
   \<and> \<not> diff_le (Finite (1 / 10)) (Finite (1 / 12))"
  by (simp add: run_in_time run_stopped)


section \<open>Attempts without a result\<close>

text \<open>
  Claim C6. When the status the solver returns is not one the code reads, or no variable
  of a player and a team has the value 1, the attempt changes neither \<open>best_teams\<close> nor
  \<open>best_diff\<close> (it only shuffles the players and counts one more call of the solver), and
  the loop goes on with the attempts that remain.
\<close>

theorem attempt_discarded:
  assumes nz: "num_teams \<noteq> 0"
    and solved: "solve (build_problem (shuffled d st) num_teams (jitter_draws d)) time_limit
                 = (status, vals)"
    and unusable: "\<not> usable status
                   \<or> (\<forall>i < length (shuffled d st). \<forall>j < nat num_teams.
                         vals (player_var i j) \<noteq> Some 1)"
  shows "attempt solve num_teams time_limit d st
         = Inr \<lparr>players = shuffled d st, best_teams = best_teams st, best_diff = best_diff st,
                solver_calls = solver_calls st + 1\<rparr>
         \<and> attempts solve num_teams time_limit (d # ds) st
           = attempts solve num_teams time_limit ds
               \<lparr>players = shuffled d st, best_teams = best_teams st, best_diff = best_diff st,
                solver_calls = solver_calls st + 1\<rparr>"
proof -
  have "try_balance_teams solve (shuffled d st) num_teams time_limit (jitter_draws d)
        = Inr ([], Infinity)"
  proof (cases "usable status")
    case False
    with nz solved show ?thesis by (simp add: try_balance_teams_def usable_def)
  next
    case True
    with unusable have "extract_teams (shuffled d st) num_teams vals = []"
      by (intro extract_teams_none) simp
    with nz solved show ?thesis by (simp add: try_balance_teams_def)
  qed
  then have "attempt solve num_teams time_limit d st
         = Inr \<lparr>players = shuffled d st, best_teams = best_teams st, best_diff = best_diff st,
                solver_calls = solver_calls st + 1\<rparr>"
    by (simp add: attempt_def shuffled_def)
  then show ?thesis by simp
qed

theorem attempt_discarded_witness:
  "attempt failing_solver 2 6 identity_draws
     \<lparr>players = roster12, best_teams = roster12_teams, best_diff = Finite (11 / 12),
      solver_calls = 1\<rparr>
   = Inr \<lparr>players = roster12, best_teams = roster12_teams, best_diff = Finite (11 / 12),
          solver_calls = 1 + 1\<rparr>
   \<and> attempts failing_solver 2 6 [identity_draws, identity_draws]
       \<lparr>players = roster12, best_teams = roster12_teams, best_diff = Finite (11 / 12),
        solver_calls = 1\<rparr>
     = attempts failing_solver 2 6 [identity_draws]
         \<lparr>players = roster12, best_teams = roster12_teams, best_diff = Finite (11 / 12),
          solver_calls = 1 + 1\<rparr>"
proof -
  let ?st = "\<lparr>players = roster12, best_teams = roster12_teams, best_diff = Finite (11 / 12),
             solver_calls = 1\<rparr>"
  have sh: "shuffled identity_draws s = players s" for s
    by (simp add: shuffled_def identity_draws_def shuffle_identity)
  have p1: "(2::int) \<noteq> 0" by simp
  have p2: "failing_solver (build_problem (shuffled identity_draws ?st) 2
              (jitter_draws identity_draws)) 6 = (LpStatusInfeasible, (\<lambda>v. None))"
    by (simp add: failing_solver_def)
  have "attempt failing_solver 2 6 identity_draws ?st
         = Inr \<lparr>players = shuffled identity_draws ?st, best_teams = best_teams ?st,
                best_diff = best_diff ?st, solver_calls = solver_calls ?st + 1\<rparr>
         \<and> attempts failing_solver 2 6 (identity_draws # [identity_draws]) ?st
           = attempts failing_solver 2 6 [identity_draws]
               \<lparr>players = shuffled identity_draws ?st, best_teams = best_teams ?st,
                best_diff = best_diff ?st, solver_calls = solver_calls ?st + 1\<rparr>"
    by (rule attempt_discarded[where status = LpStatusInfeasible and vals = "\<lambda>v. None"])
       (rule p1, rule p2, simp add: usable_def)
  then show ?thesis by (simp add: sh del: attempts.simps)
qed


section \<open>The players of the balancer\<close>

lemma attempts_players:
  assumes "attempts solve num_teams time_limit ds st = Inr st'"
  shows "mset (players st') = mset (players st)"
  by (rule attempts_invariant[OF assms, where I = "\<lambda>s. mset (players s) = mset (players st)"])
     (auto elim!: attempt_cases simp: shuffled_def mset_shuffle)

text \<open>
  Claim C7, as amended. \<^verbatim>\<open>balance_teams\<close> shuffles \<^verbatim>\<open>self.players\<close> in place at every attempt
  (line 151), so the list is not left as it was. What a run keeps is the content: the list
  after the run holds the same players, each as often as before, with the same name,
  rating and position.
\<close>

theorem balance_teams_permutes_players:
  assumes "balance_teams solve rng ps num_teams time_limit num_attempts = Inr st"
  shows "mset (players st) = mset ps"
proof (cases "num_teams \<noteq> 0 \<and> int (length ps) mod num_teams = 0")
  case True
  with assms have "attempts solve num_teams (time_limit div num_attempts)
                     (map rng [0..<nat num_attempts]) (start ps) = Inr st"
    by (simp add: balance_teams_def start_def)
  from attempts_players[OF this] show ?thesis by (simp add: start_def)
next
  case False
  with assms show ?thesis by (auto simp: balance_teams_def split: if_splits)
qed

lemma shuffle_two: "shuffle (\<lambda>i. 0) [a, b] = [b, a]"
  by (simp add: shuffle_def swap_at_def)

lemma run_two_players:
  "balance_teams failing_solver (\<lambda>k. zero_draws)
     [mk_player ''a'' 3 ''DEF'', mk_player ''b'' 4 ''MID''] 1 30 1
   = Inr \<lparr>players = [mk_player ''b'' 4 ''MID'', mk_player ''a'' 3 ''DEF''],
          best_teams = [], best_diff = Infinity, solver_calls = 1\<rparr>"
  by (simp add: balance_teams_def attempt_def zero_draws_def shuffle_two try_balance_teams_def
      failing_solver_def)

text \<open>
  Claim C7 as stated fails: one attempt on two players, with the draw 0 for the shuffle,
  leaves \<^verbatim>\<open>self.players\<close> in the other order.
\<close>

theorem players_reordered_counterexample:
  "balance_teams failing_solver (\<lambda>k. zero_draws)
     [mk_player ''a'' 3 ''DEF'', mk_player ''b'' 4 ''MID''] 1 30 1
   = Inr \<lparr>players = [mk_player ''b'' 4 ''MID'', mk_player ''a'' 3 ''DEF''],
          best_teams = [], best_diff = Infinity, solver_calls = 1\<rparr>
   \<and> [mk_player ''b'' 4 ''MID'', mk_player ''a'' 3 ''DEF'']
     \<noteq> [mk_player ''a'' 3 ''DEF'', mk_player ''b'' 4 ''MID'']"
  using run_two_players by (simp add: mk_player_def)

theorem balance_teams_permutes_players_witness:
  "mset [mk_player ''b'' 4 ''MID'', mk_player ''a'' 3 ''DEF'']
   = mset [mk_player ''a'' 3 ''DEF'', mk_player ''b'' 4 ''MID'']"
  using balance_teams_permutes_players[OF run_two_players]
  by simp

section \<open>What an attempt returns\<close>

lemma try_balance_teams_result:
  assumes "try_balance_teams solve ps num_teams time_limit jitter = Inr (found, max_diff)"
  shows "(found = [] \<and> max_diff = Infinity)
         \<or> (\<exists>status vals. solve (build_problem ps num_teams jitter) time_limit = (status, vals)
               \<and> usable status \<and> num_teams \<noteq> 0
               \<and> found = extract_teams ps num_teams vals \<and> found \<noteq> []
               \<and> max_diff = Finite (max_rating_diff found))"
proof -
  obtain status vals where s: "solve (build_problem ps num_teams jitter) time_limit = (status, vals)"
    by (cases "solve (build_problem ps num_teams jitter) time_limit")
  from assms have nz: "num_teams \<noteq> 0"
    by (auto simp: try_balance_teams_def split: if_splits)
  show ?thesis
  proof (cases "usable status \<and> extract_teams ps num_teams vals \<noteq> []")
    case True
    with assms s nz show ?thesis
      by (auto simp: try_balance_teams_def usable_def Let_def)
  next
    case False
    with assms s nz show ?thesis
      by (auto simp: try_balance_teams_def usable_def Let_def split: if_splits)
  qed
qed

lemma extract_teams_entry:
  assumes "(k, l) \<in> set (extract_teams ps num_teams vals)"
  shows "l \<noteq> []" and "set l \<subseteq> set ps"
    and "k < nat num_teams"
    and "l = map ((!) ps) (filter (assigned vals k) [0..<length ps])"
proof -
  let ?t = "extract_teams ps num_teams vals"
  have wf: "wf_teams ?t" by (rule wf_extract_teams)
  have "snd (k, l) \<in> snd ` set ?t" using assms by (rule imageI)
  then have in_l: "l \<in> snd ` set ?t" by simp
  from wf have "[] \<notin> snd ` set ?t" by (simp add: wf_teams_def)
  with in_l show ne: "l \<noteq> []" by blast
  from wf have "distinct (map fst ?t)" by (simp add: wf_teams_def)
  with assms have "map_of ?t k = Some l" by simp
  then have m: "members ?t k = l" by (simp add: members_def)
  with ne show k: "k < nat num_teams" by (auto simp: members_extract_teams split: if_splits)
  with m show eq: "l = map ((!) ps) (filter (assigned vals k) [0..<length ps])"
    by (simp add: members_extract_teams)
  show "set l \<subseteq> set ps" unfolding eq by auto
qed

lemma sum_overall_const:
  "\<forall>p \<in> set l. overall p = r \<Longrightarrow> sum_list (map overall l) = real (length l) * r"
  by (induction l) (simp_all add: algebra_simps)

lemma average_const:
  assumes "l \<noteq> []" and "\<forall>p \<in> set l. overall p = r"
  shows "sum_list (map overall l) / real (length l) = r"
proof -
  from assms(1) have "real (length l) \<noteq> 0" by simp
  then show ?thesis by (simp add: sum_overall_const[OF assms(2)])
qed

lemma team_ratings_const:
  assumes "rated r t" and "t \<noteq> []"
  shows "set (team_ratings t) = {r}"
proof -
  have "x = r" if "x \<in> set (team_ratings t)" for x
    using that assms(1) by (auto simp: team_ratings_def rated_def average_const)
  moreover from assms(2) obtain y where "y \<in> set (team_ratings t)"
    by (cases t) (auto simp: team_ratings_def)
  ultimately show ?thesis by blast
qed

lemma max_rating_diff_const:
  assumes "rated r t" and "t \<noteq> []"
  shows "max_rating_diff t = 0"
  by (simp add: max_rating_diff_def team_ratings_const[OF assms])

lemma team_output_average:
  assumes "team_output (k, l) = Inr out"
  shows "average_rating out = sum_list (map overall l) / real (length l)"
  using assms by (auto simp: team_output_def Let_def split: if_splits sum.splits)

lemma team_outputs_means:
  assumes "team_outputs items = Inr outs"
  shows "map average_rating outs = team_ratings items"
  using assms
proof (induction items arbitrary: outs)
  case Nil
  then show ?case by (simp add: team_ratings_def)
next
  case (Cons a items)
  obtain k l where a: "a = (k, l)" by (cases a)
  from Cons.prems obtain out outs' where o: "team_output (k, l) = Inr out"
    and os: "team_outputs items = Inr outs'" and eq: "outs = out # outs'"
    by (auto simp: a split: sum.splits)
  from Cons.IH[OF os] team_output_average[OF o] show ?case
    by (simp add: eq a team_ratings_def)
qed

lemma statistics_max_diff:
  assumes "statistics t = Inr response"
  shows "max_rating_difference response = max_rating_diff t"
proof -
  from assms obtain outs where o: "team_outputs (sort_key fst t) = Inr outs"
    and r: "max_rating_difference response
            = Max (set (map average_rating outs)) - Min (set (map average_rating outs))"
    by (auto simp: statistics_def Let_def split: sum.splits if_splits)
  have "set (team_ratings (sort_key fst t)) = set (team_ratings t)"
    by (simp add: team_ratings_def)
  with r team_outputs_means[OF o] show ?thesis by (simp add: max_rating_diff_def)
qed

lemma equal_ratings_invariant:
  assumes run: "attempts solve num_teams time_limit ds st = Inr st'"
    and ps: "\<forall>p \<in> set (players st). overall p = r"
    and best: "best_teams st \<noteq> [] \<longrightarrow> best_diff st = Finite 0 \<and> rated r (best_teams st)"
  shows "best_teams st' \<noteq> [] \<longrightarrow> best_diff st' = Finite 0 \<and> rated r (best_teams st')"
proof -
  let ?I = "\<lambda>s. (\<forall>p \<in> set (players s). overall p = r)
               \<and> (best_teams s \<noteq> [] \<longrightarrow> best_diff s = Finite 0 \<and> rated r (best_teams s))"
  have "?I st'"
  proof (rule attempts_invariant[OF run, where I = ?I])
    show "?I st" using ps best by simp
  next
    fix d s s'
    assume I: "?I s" and a: "attempt solve num_teams time_limit d s = Inr s'"
    from a obtain found max_diff where
      t: "try_balance_teams solve (shuffled d s) num_teams time_limit (jitter_draws d)
          = Inr (found, max_diff)"
      and p: "players s' = shuffled d s"
      and b: "(best_teams s', best_diff s')
              = (if found \<noteq> [] \<and> diff_less max_diff (best_diff s)
                 then (found, max_diff) else (best_teams s, best_diff s))"
      by (rule attempt_cases)
    have set_eq: "set (shuffled d s) = set (players s)"
      unfolding shuffled_def using mset_shuffle by (metis set_mset_mset)
    with I have all: "\<forall>p \<in> set (shuffled d s). overall p = r" by simp
    have f: "found \<noteq> [] \<longrightarrow> max_diff = Finite 0 \<and> rated r found"
    proof
      assume ne: "found \<noteq> []"
      with try_balance_teams_result[OF t] obtain vals where
        e: "found = extract_teams (shuffled d s) num_teams vals"
        and m: "max_diff = Finite (max_rating_diff found)" by blast
      have "rated r found"
        unfolding rated_def e using extract_teams_entry(1,2) all by blast
      with m ne show "max_diff = Finite 0 \<and> rated r found"
        by (simp add: max_rating_diff_const)
    qed
    show "?I s'" using I all p b f by (auto split: if_splits)
  qed
  then show ?thesis by simp
qed


section \<open>The statistics and the positions\<close>

lemma dict_incr_Inl:
  "dict_incr k d = Inl e \<Longrightarrow> k \<notin> fst ` set d \<and> e = KeyError k"
  by (induction k d rule: dict_incr.induct) (auto split: if_splits sum.splits)

lemma dict_incr_Inr:
  "dict_incr k d = Inr d' \<Longrightarrow> k \<in> fst ` set d \<and> map fst d' = map fst d"
  by (induction k d arbitrary: d' rule: dict_incr.induct) (auto split: if_splits sum.splits)

lemma count_positions_Inl:
  "count_positions l d = Inl e \<Longrightarrow>
   \<exists>p \<in> set l. position p \<notin> fst ` set d \<and> e = KeyError (position p)"
proof (induction l arbitrary: d)
  case Nil
  then show ?case by simp
next
  case (Cons p l)
  show ?case
  proof (cases "dict_incr (position p) d")
    case (Inl e')
    with Cons.prems dict_incr_Inl[OF Inl] show ?thesis by auto
  next
    case (Inr d')
    with Cons.prems have "count_positions l d' = Inl e" by simp
    from Cons.IH[OF this] dict_incr_Inr[OF Inr] show ?thesis
      by (metis image_set list.set_intros(2))
  qed
qed

lemma count_positions_Inr:
  "count_positions l d = Inr d' \<Longrightarrow> \<forall>p \<in> set l. position p \<in> fst ` set d"
proof (induction l arbitrary: d)
  case Nil
  then show ?case by simp
next
  case (Cons p l)
  from Cons.prems obtain d1 where i: "dict_incr (position p) d = Inr d1"
    and c: "count_positions l d1 = Inr d'"
    by (auto split: sum.splits)
  from Cons.IH[OF c] dict_incr_Inr[OF i] show ?case
    by (metis image_set set_ConsD)
qed

lemma team_output_Inl:
  assumes "l \<noteq> []" and "team_output (k, l) = Inl e"
  shows "\<exists>p \<in> set l. position p \<notin> known_positions \<and> e = KeyError (position p)"
proof -
  from assms have "count_positions l [(''DEF'', 0), (''MID'', 0), (''ATT'', 0)] = Inl e"
    by (auto simp: team_output_def Let_def split: sum.splits)
  from count_positions_Inl[OF this] show ?thesis by (simp add: known_positions_def)
qed

lemma team_output_Inr:
  assumes "team_output (k, l) = Inr out"
  shows "\<forall>p \<in> set l. position p \<in> known_positions"
proof -
  from assms obtain d' where "count_positions l [(''DEF'', 0), (''MID'', 0), (''ATT'', 0)] = Inr d'"
    by (auto simp: team_output_def Let_def split: sum.splits if_splits)
  from count_positions_Inr[OF this] show ?thesis by (simp add: known_positions_def)
qed

lemma team_outputs_Inl:
  assumes "[] \<notin> snd ` set items" and "team_outputs items = Inl e"
  shows "\<exists>pos. pos \<notin> known_positions \<and> e = KeyError pos"
  using assms
proof (induction items)
  case Nil
  then show ?case by simp
next
  case (Cons a items)
  obtain k l where a: "a = (k, l)" by (cases a)
  from Cons.prems(1) have l: "l \<noteq> []" and rest: "[] \<notin> snd ` set items"
    by (auto simp: a)
  show ?case
  proof (cases "team_output (k, l)")
    case (Inl e')
    with Cons.prems(2) have "e' = e" by (simp add: a)
    with team_output_Inl[OF l Inl] show ?thesis by blast
  next
    case (Inr out)
    with Cons.prems(2) have "team_outputs items = Inl e"
      by (auto simp: a split: sum.splits)
    from Cons.IH[OF rest this] show ?thesis .
  qed
qed

lemma team_outputs_Inr:
  assumes "team_outputs items = Inr outs"
  shows "\<forall>(k, l) \<in> set items. \<forall>p \<in> set l. position p \<in> known_positions"
  using assms
proof (induction items arbitrary: outs)
  case Nil
  then show ?case by simp
next
  case (Cons a items)
  obtain k l where a: "a = (k, l)" by (cases a)
  from Cons.prems obtain out outs' where o: "team_output (k, l) = Inr out"
    and os: "team_outputs items = Inr outs'"
    by (auto simp: a split: sum.splits)
  from Cons.IH[OF os] team_output_Inr[OF o] show ?case by (simp add: a)
qed

lemma statistics_unknown_position:
  assumes ne: "[] \<notin> snd ` set t"
    and "(k, l) \<in> set t" and "p \<in> set l" and "position p \<notin> known_positions"
  shows "\<exists>pos. pos \<notin> known_positions \<and> statistics t = Inl (KeyError pos)"
proof (cases "team_outputs (sort_key fst t)")
  case (Inl e)
  from ne have "[] \<notin> snd ` set (sort_key fst t)" by simp
  from team_outputs_Inl[OF this Inl] Inl show ?thesis
    by (auto simp: statistics_def)
next
  case (Inr outs)
  from team_outputs_Inr[OF Inr] assms(2-4) show ?thesis by auto
qed

lemma attempts_best_wf:
  assumes "attempts solve num_teams time_limit ds st = Inr st'"
    and "wf_teams (best_teams st)"
  shows "wf_teams (best_teams st')"
proof (rule attempts_invariant[OF assms(1), where I = "\<lambda>s. wf_teams (best_teams s)"])
  show "wf_teams (best_teams st)" by (rule assms(2))
next
  fix d s s'
  assume I: "wf_teams (best_teams s)" and a: "attempt solve num_teams time_limit d s = Inr s'"
  from a obtain found max_diff where
    t: "try_balance_teams solve (shuffled d s) num_teams time_limit (jitter_draws d)
        = Inr (found, max_diff)"
    and b: "(best_teams s', best_diff s')
            = (if found \<noteq> [] \<and> diff_less max_diff (best_diff s)
               then (found, max_diff) else (best_teams s, best_diff s))"
    by (rule attempt_cases)
  from try_balance_teams_result[OF t] have "wf_teams found"
    by (auto simp: wf_extract_teams) (simp add: wf_teams_def)
  with I b show "wf_teams (best_teams s')" by (auto split: if_splits)
qed

lemma balance_teams_best_wf:
  assumes "balance_teams solve rng ps num_teams time_limit num_attempts = Inr st"
  shows "wf_teams (best_teams st)"
proof (cases "num_teams \<noteq> 0 \<and> int (length ps) mod num_teams = 0")
  case True
  with assms have "attempts solve num_teams (time_limit div num_attempts)
                     (map rng [0..<nat num_attempts]) (start ps) = Inr st"
    by (simp add: balance_teams_def start_def)
  from attempts_best_wf[OF this] show ?thesis by (simp add: start_def wf_teams_def)
next
  case False
  with assms show ?thesis by (auto simp: balance_teams_def wf_teams_def split: if_splits)
qed


section \<open>Runs on the concrete rosters\<close>

lemma run_checked:
  assumes f: "feasible (build_problem ps num_teams (\<lambda>i. 0)) candidate"
    and e: "extract_teams ps num_teams candidate = found"
    and ne: "found \<noteq> []"
    and nz: "num_teams \<noteq> 0" and dv: "int (length ps) mod num_teams = 0"
  shows "balance_teams (checked_solver candidate) (\<lambda>k. identity_draws) ps num_teams time_limit 1
         = Inr \<lparr>players = ps, best_teams = found, best_diff = Finite (max_rating_diff found),
                solver_calls = 1\<rparr>"
proof -
  have "try_balance_teams (checked_solver candidate) ps num_teams (time_limit div 1) (\<lambda>i. 0)
        = Inr (found, Finite (max_rating_diff found))"
    using f e ne nz by (simp add: try_balance_teams_def checked_solver_def)
  then have "attempt (checked_solver candidate) num_teams (time_limit div 1) identity_draws (start ps)
        = Inr \<lparr>players = ps, best_teams = found, best_diff = Finite (max_rating_diff found),
               solver_calls = 1\<rparr>"
    using ne by (simp add: attempt_def identity_draws_def shuffle_identity start_def)
  then show ?thesis using nz dv by (simp add: balance_teams_def start_def)
qed

lemma equal12_feasible: "feasible (build_problem equal12 2 (\<lambda>i. 0)) alternate"
  by code_simp

lemma equal12_extract: "extract_teams equal12 2 alternate = equal12_teams"
  by code_simp

lemma roster14_feasible: "feasible (build_problem roster14 2 (\<lambda>i. 0)) alternate"
  by code_simp

lemma roster14_extract: "extract_teams roster14 2 alternate = roster14_teams"
  by code_simp

lemma run_equal12:
  "balance_teams (checked_solver alternate) (\<lambda>k. identity_draws) equal12 2 30 1
   = Inr \<lparr>players = equal12, best_teams = equal12_teams,
          best_diff = Finite (max_rating_diff equal12_teams), solver_calls = 1\<rparr>"
  by (rule run_checked[OF equal12_feasible equal12_extract])
     (simp_all add: equal12_teams_def roster12_teams_def equal12_def roster12_def)

lemma run_roster14:
  "balance_teams (checked_solver alternate) (\<lambda>k. identity_draws) roster14 2 30 1
   = Inr \<lparr>players = roster14, best_teams = roster14_teams,
          best_diff = Finite (max_rating_diff roster14_teams), solver_calls = 1\<rparr>"
  by (rule run_checked[OF roster14_feasible roster14_extract])
     (simp_all add: roster14_teams_def roster14_def roster12_def)


section \<open>Equal ratings\<close>

text \<open>
  Claim C8. When all players have the same rating \<open>r\<close>, the dictionary a run returns, if
  it is not empty, has the maximum difference 0: as \<open>best_diff\<close> of the run, as
  \<^verbatim>\<open>max(team_ratings) - min(team_ratings)\<close> of the returned teams, and as the
  \<^verbatim>\<open>max_rating_difference\<close> of the API's response. Neither the number of attempts nor the
  solver's choice matters; nothing is assumed of the solver.
\<close>

theorem equal_ratings_no_difference:
  assumes "\<forall>p \<in> set ps. overall p = r"
    and "balance_teams solve rng ps num_teams time_limit num_attempts = Inr st"
    and "best_teams st \<noteq> []"
  shows "best_diff st = Finite 0
         \<and> max_rating_diff (best_teams st) = 0
         \<and> (\<forall>response. statistics (best_teams st) = Inr response
               \<longrightarrow> max_rating_difference response = 0)"
proof -
  from assms(2,3) have "attempts solve num_teams (time_limit div num_attempts)
                     (map rng [0..<nat num_attempts]) (start ps) = Inr st"
    by (auto simp: balance_teams_def start_def split: if_splits)
  from equal_ratings_invariant[OF this, of r] assms(1,3)
  have d: "best_diff st = Finite 0" and r: "rated r (best_teams st)"
    by (simp_all add: start_def)
  from max_rating_diff_const[OF r assms(3)] d show ?thesis
    by (simp add: statistics_max_diff)
qed

theorem equal_ratings_no_difference_witness:
  "Finite (max_rating_diff equal12_teams) = Finite 0 \<and> max_rating_diff equal12_teams = 0"
proof -
  have all: "\<forall>p \<in> set equal12. overall p = 3" by (simp add: equal12_def)
  have ne: "best_teams \<lparr>players = equal12, best_teams = equal12_teams,
          best_diff = Finite (max_rating_diff equal12_teams), solver_calls = 1\<rparr> \<noteq> []"
    by (simp add: equal12_teams_def roster12_teams_def)
  from equal_ratings_no_difference[OF all run_equal12 ne] show ?thesis by simp
qed


section \<open>The statistics as a function of the dictionary\<close>

lemma sorted_items_same:
  assumes d1: "distinct (map fst t1)" and d2: "distinct (map fst t2)"
    and eq: "map_of t1 = map_of t2"
  shows "sort_key fst t1 = sort_key fst t2" and "t1 = [] \<longleftrightarrow> t2 = []"
proof -
  from eq have s: "set t1 = set t2" using map_of_inject_set[OF d1 d2] by simp
  from d1 have "distinct t1" by (simp add: distinct_map)
  moreover from d2 have "distinct t2" by (simp add: distinct_map)
  ultimately have m: "mset t1 = mset (sort_key fst t2)"
    using s by (simp add: set_eq_iff_mset_eq_distinct)
  from d1 have inj: "inj_on fst (set t1)" by (simp add: distinct_map)
  show "sort_key fst t1 = sort_key fst t2"
    by (rule sort_key_inj_key_eq[OF m inj]) simp
  from s show "t1 = [] \<longleftrightarrow> t2 = []" by (metis set_empty)
qed

text \<open>
  The statistics are a function of the dictionary's content: two dictionaries that are
  equal as Python dictionaries (the same keys with the same lists, in whatever order
  they were inserted) give the same result, an exception included, both in the API and in
  \<^verbatim>\<open>print_teams\<close>.
\<close>

lemma statistics_same_dict:
  assumes "distinct (map fst t1)" and "distinct (map fst t2)"
    and "map_of t1 = map_of t2"
  shows "statistics t1 = statistics t2 \<and> print_teams t1 = print_teams t2"
  using sorted_items_same[OF assms] by (simp add: statistics_def print_teams_def)


section \<open>The statistics on the store\<close>

subsection \<open>The API\<close>

lemma unchanged_refl: "unchanged n s s"
  by (simp add: unchanged_def)

lemma unchanged_trans: "unchanged n s s' \<Longrightarrow> unchanged n s' s'' \<Longrightarrow> unchanged n s s''"
  by (simp add: unchanged_def)

lemma count_in_store_fields:
  "player_objects (fst (count_in_store c rs s)) = player_objects s"
  "list_objects (fst (count_in_store c rs s)) = list_objects s"
  "dict_objects (fst (count_in_store c rs s)) = dict_objects s"
  "group_objects (fst (count_in_store c rs s)) = group_objects s"
  "output_objects (fst (count_in_store c rs s)) = output_objects s"
  "float_objects (fst (count_in_store c rs s)) = float_objects s"
  "allocated (fst (count_in_store c rs s)) = allocated s"
  "r \<noteq> c \<Longrightarrow> count_objects (fst (count_in_store c rs s)) r = count_objects s r"
  by (induction rs arbitrary: s; simp split: sum.splits)+

lemma count_in_store_result:
  "snd (count_in_store c rs s)
   = (case count_positions (map (player_objects s) rs) (count_objects s c) of
        Inl e \<Rightarrow> Some e | Inr d \<Rightarrow> None)"
  "count_positions (map (player_objects s) rs) (count_objects s c) = Inr d
   \<Longrightarrow> count_objects (fst (count_in_store c rs s)) c = d"
  by (induction rs arbitrary: s; simp split: sum.splits)+

lemma team_output_in_store_fields:
  "player_objects (fst (team_output_in_store A B (j, l) s)) = player_objects s"
  "dict_objects (fst (team_output_in_store A B (j, l) s)) = dict_objects s"
  "group_objects (fst (team_output_in_store A B (j, l) s)) = group_objects s"
  "float_objects (fst (team_output_in_store A B (j, l) s)) = float_objects s"
  "list_objects (fst (team_output_in_store A B (j, l) s))
   = (list_objects s)(A := list_objects s A @ list_objects s l)"
  "allocated s \<le> allocated (fst (team_output_in_store A B (j, l) s))"
  "r < allocated s \<Longrightarrow> count_objects (fst (team_output_in_store A B (j, l) s)) r = count_objects s r"
  "r \<noteq> B \<Longrightarrow> output_objects (fst (team_output_in_store A B (j, l) s)) r = output_objects s r"
  by (simp_all add: team_output_in_store_def Let_def new_count_def list_extend_def
      outputs_append_def count_in_store_fields split_beta split: option.splits)

lemma team_output_in_store_result:
  assumes "l \<noteq> A"
  shows "snd (team_output_in_store A B (j, l) s)
         = (case team_output (j, players_of s l) of Inl e \<Rightarrow> Some e | Inr out \<Rightarrow> None)"
    and "team_output (j, players_of s l) = Inr out
         \<Longrightarrow> output_objects (fst (team_output_in_store A B (j, l) s)) B
             = output_objects s B @ [out]"
  using assms
  by (auto simp add: team_output_in_store_def team_output_def Let_def new_count_def
      list_extend_def outputs_append_def count_in_store_fields count_in_store_result
      players_of_def split_beta split: option.splits sum.splits if_splits)

lemma team_outputs_in_store_Cons:
  "team_outputs_in_store A B ((j, l) # ts) s
   = (case snd (team_output_in_store A B (j, l) s) of
        Some e \<Rightarrow> (fst (team_output_in_store A B (j, l) s), Some e)
      | None \<Rightarrow> team_outputs_in_store A B ts (fst (team_output_in_store A B (j, l) s)))"
  by (simp split: prod.splits option.splits)

lemma team_outputs_in_store_fields:
  "player_objects (fst (team_outputs_in_store A B items s)) = player_objects s"
  "dict_objects (fst (team_outputs_in_store A B items s)) = dict_objects s"
  "group_objects (fst (team_outputs_in_store A B items s)) = group_objects s"
  "float_objects (fst (team_outputs_in_store A B items s)) = float_objects s"
  "r \<noteq> A \<Longrightarrow> list_objects (fst (team_outputs_in_store A B items s)) r = list_objects s r"
  "r \<noteq> B \<Longrightarrow> output_objects (fst (team_outputs_in_store A B items s)) r = output_objects s r"
  by (induction items arbitrary: s;
      auto simp: team_outputs_in_store_Cons team_output_in_store_fields
        simp del: team_outputs_in_store.simps(2) split: option.splits)+

lemma team_outputs_in_store_allocated:
  "allocated s \<le> allocated (fst (team_outputs_in_store A B items s))"
proof (induction items arbitrary: s)
  case Nil
  show ?case by simp
next
  case (Cons t ts)
  obtain j l where t: "t = (j, l)" by (cases t)
  let ?s1 = "fst (team_output_in_store A B (j, l) s)"
  have a: "allocated s \<le> allocated ?s1" by (simp add: team_output_in_store_fields)
  have "allocated ?s1 \<le> allocated (fst (team_outputs_in_store A B ts ?s1))"
    by (rule Cons.IH)
  with a have "allocated s \<le> allocated (fst (team_outputs_in_store A B ts ?s1))"
    by (rule order_trans)
  with a show ?case
    by (simp add: t team_outputs_in_store_Cons del: team_outputs_in_store.simps(2)
        split: option.splits)
qed

lemma team_outputs_in_store_counts:
  "r < allocated s \<Longrightarrow> count_objects (fst (team_outputs_in_store A B items s)) r = count_objects s r"
proof (induction items arbitrary: s)
  case Nil
  show ?case by simp
next
  case (Cons t ts)
  obtain j l where t: "t = (j, l)" by (cases t)
  let ?s1 = "fst (team_output_in_store A B (j, l) s)"
  have "allocated s \<le> allocated ?s1" by (simp add: team_output_in_store_fields)
  with Cons.prems have "r < allocated ?s1" by simp
  from Cons.IH[OF this] Cons.prems show ?case
    by (simp add: t team_outputs_in_store_Cons team_output_in_store_fields
        del: team_outputs_in_store.simps(2) split: option.splits)
qed

lemma team_outputs_in_store_result:
  assumes "\<forall>(j, l) \<in> set items. l \<noteq> A"
  shows "snd (team_outputs_in_store A B items s)
         = (case team_outputs (map (\<lambda>(j, l). (j, players_of s l)) items) of
              Inl e \<Rightarrow> Some e | Inr outs \<Rightarrow> None)"
    and "team_outputs (map (\<lambda>(j, l). (j, players_of s l)) items) = Inr outs
         \<Longrightarrow> output_objects (fst (team_outputs_in_store A B items s)) B
               = output_objects s B @ outs
             \<and> list_objects (fst (team_outputs_in_store A B items s)) A
               = list_objects s A @ concat (map (\<lambda>(j, l). list_objects s l) items)"
  using assms
proof (induction items arbitrary: s outs)
  case Nil
  {
    case 1 show ?case by simp
  next
    case 2 then show ?case by simp
  }
next
  case (Cons t ts)
  obtain j l where t: "t = (j, l)" by (cases t)
  {
    fix s :: store
    assume all: "\<forall>(j, l) \<in> set (t # ts). l \<noteq> A"
    let ?s1 = "fst (team_output_in_store A B (j, l) s)"
    from all have l: "l \<noteq> A" and rest: "\<forall>(j, l) \<in> set ts. l \<noteq> A" by (auto simp: t)
    have same: "map (\<lambda>(j, l). (j, players_of ?s1 l)) ts = map (\<lambda>(j, l). (j, players_of s l)) ts"
      using rest by (auto simp: players_of_def team_output_in_store_fields)
    have lists: "map (\<lambda>(j, l). list_objects ?s1 l) ts = map (\<lambda>(j, l). list_objects s l) ts"
      using rest by (auto simp: team_output_in_store_fields)
    note l rest same lists
  } note facts = this
  {
    case 1
    note f = facts[OF 1]
    let ?s1 = "fst (team_output_in_store A B (j, l) s)"
    show ?case
      using Cons.IH(1)[OF f(2), of ?s1]
      by (auto simp add: t team_outputs_in_store_Cons team_output_in_store_result(1)[OF f(1)] f(3)
          simp del: team_outputs_in_store.simps(2) split: option.splits sum.splits)
  next
    case 2
    note f = facts[OF 2(2)]
    let ?s1 = "fst (team_output_in_store A B (j, l) s)"
    from 2(1) obtain out outs' where
      o: "team_output (j, players_of s l) = Inr out"
      and os: "team_outputs (map (\<lambda>(j, l). (j, players_of s l)) ts) = Inr outs'"
      and outs: "outs = out # outs'"
      by (auto simp: t split: sum.splits)
    from os have os1: "team_outputs (map (\<lambda>(j, l). (j, players_of ?s1 l)) ts) = Inr outs'"
      by (simp add: f(3))
    from Cons.IH(2)[OF os1 f(2)]
    have ih: "output_objects (fst (team_outputs_in_store A B ts ?s1)) B
                = output_objects ?s1 B @ outs'"
      "list_objects (fst (team_outputs_in_store A B ts ?s1)) A
                = list_objects ?s1 A @ concat (map (\<lambda>(j, l). list_objects s l) ts)"
      by (simp_all only: f(4))
    show ?case
      by (simp add: t team_outputs_in_store_Cons team_output_in_store_result[OF f(1)] o outs ih
          team_output_in_store_fields del: team_outputs_in_store.simps(2) split: option.splits)
  }
qed

lemma insort_key_map:
  assumes "\<And>x. k (h x) = k' x"
  shows "insort_key k (h x) (map h xs) = map h (insort_key k' x xs)"
  by (induction xs) (simp_all add: assms)

lemma sort_key_map:
  assumes "\<And>x. k (h x) = k' x"
  shows "sort_key k (map h xs) = map h (sort_key k' xs)"
  by (induction xs) (simp_all add: insort_key_map[where k = k and k' = k', OF assms])

lemma sorted_teams_of:
  "sort_key fst (teams_of s t) = map (\<lambda>(j, l). (j, players_of s l)) (sort_key fst (dict_objects s t))"
  unfolding teams_of_def by (rule sort_key_map) (simp add: split_beta)

lemma statistics_in_store_unchanged:
  "unchanged (allocated s) s (fst (statistics_in_store t s))"
  by (simp add: statistics_in_store_def unchanged_def new_list_def new_outputs_def Let_def
      split_beta team_outputs_in_store_fields team_outputs_in_store_counts
      order_trans[OF _ team_outputs_in_store_allocated] split: option.splits)

lemma statistics_in_store_result:
  assumes "lists_allocated s t"
  shows "snd (statistics_in_store t s) = statistics (teams_of s t)"
proof -
  let ?A = "allocated s" and ?B = "allocated s + 1"
  let ?s2 = "s\<lparr>list_objects := (list_objects s)(?A := []), allocated := ?A + 1,
               output_objects := (output_objects s)(?B := []), allocated := ?B + 1\<rparr>"
  let ?items = "sort_key fst (dict_objects s t)"
  define s3 where "s3 = fst (team_outputs_in_store ?A ?B ?items ?s2)"
  define e3 where "e3 = snd (team_outputs_in_store ?A ?B ?items ?s2)"
  define A where "A = allocated s"
  define its where "its = map (\<lambda>(j, l). (j, players_of s l)) ?items"
  from assms have ne: "\<forall>(j, l) \<in> set ?items. l \<noteq> ?A"
    by (auto simp: lists_allocated_def)
  have same: "map (\<lambda>(j, l). (j, players_of ?s2 l)) ?items
              = map (\<lambda>(j, l). (j, players_of s l)) ?items"
    using ne by (auto simp: players_of_def)
  have lists: "map (\<lambda>(j, l). list_objects ?s2 l) ?items = map (\<lambda>(j, l). list_objects s l) ?items"
    using ne by auto
  have unfold: "snd (statistics_in_store t s)
     = (case e3 of
          Some e \<Rightarrow> Inl e
        | None \<Rightarrow>
            if length (list_objects s3 A) = 0 then Inl ZeroDivisionError
            else Inr \<lparr>teams = output_objects s3 (A + 1),
                    overall_mean = sum_list (map overall (players_of s3 A))
                                   / real (length (list_objects s3 A)),
                    max_rating_difference =
                      Max (set (map average_rating (output_objects s3 (A + 1))))
                      - Min (set (map average_rating (output_objects s3 (A + 1))))\<rparr>)"
    unfolding s3_def e3_def A_def
    by (simp add: statistics_in_store_def new_list_def new_outputs_def Let_def split_beta
        split: option.splits)
  have pure: "statistics (teams_of s t)
     = (case team_outputs its of
          Inl e \<Rightarrow> Inl e
        | Inr outs \<Rightarrow>
            if length (concat (map snd its)) = 0 then Inl ZeroDivisionError
            else Inr \<lparr>teams = outs,
                    overall_mean = sum_list (map overall (concat (map snd its)))
                                   / real (length (concat (map snd its))),
                    max_rating_difference =
                      Max (set (map average_rating outs))
                      - Min (set (map average_rating outs))\<rparr>)"
    unfolding its_def by (auto simp add: statistics_def sorted_teams_of Let_def split: sum.splits)
  note res = team_outputs_in_store_result[OF ne, where B = "?B" and s = "?s2", unfolded same lists,
      folded s3_def e3_def its_def]
  show ?thesis
  proof (cases "team_outputs its")
    case (Inl e)
    with res(1) show ?thesis by (simp add: unfold pure)
  next
    case (Inr outs)
    from res(2)[OF Inr] have o: "output_objects s3 (A + 1) = outs"
      and l: "list_objects s3 A = concat (map (\<lambda>(j, l). list_objects s l) ?items)"
      by (simp_all add: A_def)
    have po: "player_objects s3 = player_objects s"
      unfolding s3_def by (simp add: team_outputs_in_store_fields)
    have p: "players_of s3 A = concat (map snd its)"
      unfolding players_of_def po l its_def by (simp add: map_concat comp_def split_beta)
    have len: "length (list_objects s3 A) = length (concat (map snd its))"
      unfolding l its_def by (simp add: players_of_def length_concat comp_def split_beta)
    from o have o': "output_objects s3 (Suc A) = outs" by simp
    from res(1) Inr show ?thesis by (simp add: unfold pure o' p len)
  qed
qed

subsection \<open>\<^verbatim>\<open>print_teams\<close>\<close>

lemma fold_group_append:
  "fold (\<lambda>p s. group_append g (position (player_objects s p)) p s) rs s
   = s\<lparr>group_objects := (group_objects s)
         (g := fold (\<lambda>p. dict_append (position (player_objects s p)) p) rs (group_objects s g))\<rparr>"
  by (induction rs arbitrary: s) (simp_all add: group_append_def)

lemma members_fold_dict_append:
  "members (fold (\<lambda>p. dict_append (key p) p) rs d) k = members d k @ filter (\<lambda>p. key p = k) rs"
  by (induction rs arbitrary: d) (simp_all add: members_dict_append)

lemma group_get_fields:
  "player_objects (fst (group_get g k s)) = player_objects s"
  "dict_objects (fst (group_get g k s)) = dict_objects s"
  "list_objects (fst (group_get g k s)) = list_objects s"
  "count_objects (fst (group_get g k s)) = count_objects s"
  "output_objects (fst (group_get g k s)) = output_objects s"
  "float_objects (fst (group_get g k s)) = float_objects s"
  "allocated (fst (group_get g k s)) = allocated s"
  "r \<noteq> g \<Longrightarrow> group_objects (fst (group_get g k s)) r = group_objects s r"
  "members (group_objects (fst (group_get g k s)) g) k' = members (group_objects s g) k'"
  "snd (group_get g k s) = members (group_objects s g) k"
  by (auto simp: group_get_def members_def split: option.splits if_splits)

lemma sorted_groups_Cons:
  "sorted_groups g (pos # rest) s
   = (fst (sorted_groups g rest (fst (group_get g pos s))),
      (pos, map (player_objects (fst (group_get g pos s)))
              (sort_key (\<lambda>p. - overall (player_objects (fst (group_get g pos s)) p))
                 (snd (group_get g pos s))))
      # snd (sorted_groups g rest (fst (group_get g pos s))))"
  by (simp add: split_beta Let_def)

lemma sorted_groups_fields:
  "player_objects (fst (sorted_groups g poss s)) = player_objects s"
  "dict_objects (fst (sorted_groups g poss s)) = dict_objects s"
  "list_objects (fst (sorted_groups g poss s)) = list_objects s"
  "count_objects (fst (sorted_groups g poss s)) = count_objects s"
  "output_objects (fst (sorted_groups g poss s)) = output_objects s"
  "float_objects (fst (sorted_groups g poss s)) = float_objects s"
  "allocated (fst (sorted_groups g poss s)) = allocated s"
  "r \<noteq> g \<Longrightarrow> group_objects (fst (sorted_groups g poss s)) r = group_objects s r"
  by (induction poss arbitrary: s;
      simp add: sorted_groups_Cons group_get_fields del: sorted_groups.simps(2))+

lemma sorted_groups_result:
  "snd (sorted_groups g poss s)
   = map (\<lambda>pos. (pos, map (player_objects s)
                       (sort_key (\<lambda>p. - overall (player_objects s p))
                          (members (group_objects s g) pos)))) poss"
  by (induction poss arbitrary: s)
     (simp_all add: sorted_groups_Cons group_get_fields del: sorted_groups.simps(2))



lemma fold_count_incr:
  "fold (\<lambda>p s. count_incr c (position (player_objects s p)) s) rs s
   = s\<lparr>count_objects := (count_objects s)
         (c := fold (\<lambda>p. default_incr (position (player_objects s p))) rs (count_objects s c))\<rparr>"
  by (induction rs arbitrary: s) (simp_all add: count_incr_def)

lemma count_of_default_incr:
  "count_of (default_incr k d) k' = (if k' = k then count_of d k + 1 else count_of d k')"
  by (induction d) (auto simp: count_of_def)

lemma count_of_fold_default_incr:
  "count_of (fold (\<lambda>p. default_incr (key p)) rs d) k
   = count_of d k + length (filter (\<lambda>p. key p = k) rs)"
  by (induction rs arbitrary: d) (simp_all add: count_of_default_incr)

lemma count_get_fields:
  "player_objects (fst (count_get c k s)) = player_objects s"
  "dict_objects (fst (count_get c k s)) = dict_objects s"
  "list_objects (fst (count_get c k s)) = list_objects s"
  "group_objects (fst (count_get c k s)) = group_objects s"
  "output_objects (fst (count_get c k s)) = output_objects s"
  "float_objects (fst (count_get c k s)) = float_objects s"
  "allocated (fst (count_get c k s)) = allocated s"
  "r \<noteq> c \<Longrightarrow> count_objects (fst (count_get c k s)) r = count_objects s r"
  "count_of (count_objects (fst (count_get c k s)) c) k' = count_of (count_objects s c) k'"
  "snd (count_get c k s) = count_of (count_objects s c) k"
  by (auto simp: count_get_def count_of_def split: option.splits if_splits)

lemma read_counts_Cons:
  "read_counts c (pos # rest) s
   = (fst (read_counts c rest (fst (count_get c pos s))),
      (pos, snd (count_get c pos s)) # snd (read_counts c rest (fst (count_get c pos s))))"
  by (simp add: split_beta Let_def)

lemma read_counts_fields:
  "player_objects (fst (read_counts c poss s)) = player_objects s"
  "dict_objects (fst (read_counts c poss s)) = dict_objects s"
  "list_objects (fst (read_counts c poss s)) = list_objects s"
  "group_objects (fst (read_counts c poss s)) = group_objects s"
  "output_objects (fst (read_counts c poss s)) = output_objects s"
  "float_objects (fst (read_counts c poss s)) = float_objects s"
  "allocated (fst (read_counts c poss s)) = allocated s"
  "r \<noteq> c \<Longrightarrow> count_objects (fst (read_counts c poss s)) r = count_objects s r"
  by (induction poss arbitrary: s;
      simp add: read_counts_Cons count_get_fields del: read_counts.simps(2))+

lemma read_counts_result:
  "snd (read_counts c poss s) = map (\<lambda>pos. (pos, count_of (count_objects s c) pos)) poss"
  by (induction poss arbitrary: s)
     (simp_all add: read_counts_Cons count_get_fields del: read_counts.simps(2))

lemmas store_ops = new_group_def new_count_def new_list_def new_floats_def floats_append_def
  list_extend_def fold_group_append fold_count_incr sorted_groups_fields read_counts_fields

lemma team_report_in_store_fields:
  "player_objects (fst (team_report_in_store tm A (j, l) s)) = player_objects s"
  "dict_objects (fst (team_report_in_store tm A (j, l) s)) = dict_objects s"
  "output_objects (fst (team_report_in_store tm A (j, l) s)) = output_objects s"
  "allocated s \<le> allocated (fst (team_report_in_store tm A (j, l) s))"
  "r \<noteq> A \<Longrightarrow> list_objects (fst (team_report_in_store tm A (j, l) s)) r = list_objects s r"
  "r \<noteq> tm \<Longrightarrow> float_objects (fst (team_report_in_store tm A (j, l) s)) r = float_objects s r"
  "r < allocated s \<Longrightarrow> count_objects (fst (team_report_in_store tm A (j, l) s)) r = count_objects s r"
  "r < allocated s \<Longrightarrow> group_objects (fst (team_report_in_store tm A (j, l) s)) r = group_objects s r"
  by (simp_all add: team_report_in_store_def Let_def split_beta store_ops
      del: sorted_groups.simps read_counts.simps)

lemma sort_filter_players:
  "map P (sort_key (\<lambda>p. - overall (P p)) (filter (\<lambda>p. position (P p) = pos) rs))
   = sort_key (\<lambda>p. - overall p) (filter (\<lambda>p. position p = pos) (map P rs))"
  by (simp add: filter_map comp_def sort_key_map[where k' = "\<lambda>p. - overall (P p)"])

lemma members_Nil: "members [] k = []"
  by (simp add: members_def)

lemma count_of_Nil: "count_of [] k = 0"
  by (simp add: count_of_def)

lemma team_report_in_store_result:
  assumes "l \<noteq> A"
  shows "snd (team_report_in_store tm A (j, l) s) = team_report (j, players_of s l)"
    and "list_objects s l \<noteq> []
         \<Longrightarrow> float_objects (fst (team_report_in_store tm A (j, l) s)) tm
               = float_objects s tm
                 @ [sum_list (map overall (players_of s l)) / real (length (list_objects s l))]
             \<and> list_objects (fst (team_report_in_store tm A (j, l) s)) A
               = list_objects s A @ list_objects s l"
  using assms
  by (simp_all add: team_report_in_store_def team_report_def Let_def split_beta store_ops
      sorted_groups_result read_counts_result members_fold_dict_append
      count_of_fold_default_incr players_of_def sort_filter_players members_Nil count_of_Nil
      filter_map comp_def
      del: sorted_groups.simps read_counts.simps)

lemma team_reports_in_store_Cons:
  "team_reports_in_store tm A ((j, l) # ts) s
   = (case snd (team_report_in_store tm A (j, l) s) of
        Inl e \<Rightarrow> (fst (team_report_in_store tm A (j, l) s), Inl e)
      | Inr r \<Rightarrow>
          (case snd (team_reports_in_store tm A ts (fst (team_report_in_store tm A (j, l) s))) of
             Inl e \<Rightarrow> (fst (team_reports_in_store tm A ts (fst (team_report_in_store tm A (j, l) s))),
                        Inl e)
           | Inr rs \<Rightarrow> (fst (team_reports_in_store tm A ts (fst (team_report_in_store tm A (j, l) s))),
                         Inr (r # rs))))"
  by (simp split: prod.splits sum.splits)

lemma team_reports_in_store_fields:
  "player_objects (fst (team_reports_in_store tm A items s)) = player_objects s"
  "dict_objects (fst (team_reports_in_store tm A items s)) = dict_objects s"
  "output_objects (fst (team_reports_in_store tm A items s)) = output_objects s"
  "r \<noteq> A \<Longrightarrow> list_objects (fst (team_reports_in_store tm A items s)) r = list_objects s r"
  "r \<noteq> tm \<Longrightarrow> float_objects (fst (team_reports_in_store tm A items s)) r = float_objects s r"
  by (induction items arbitrary: s;
      auto simp: team_reports_in_store_Cons team_report_in_store_fields
        simp del: team_reports_in_store.simps(2) split: sum.splits)+

lemma team_reports_in_store_allocated:
  "allocated s \<le> allocated (fst (team_reports_in_store tm A items s))"
proof (induction items arbitrary: s)
  case Nil
  show ?case by simp
next
  case (Cons t ts)
  obtain j l where t: "t = (j, l)" by (cases t)
  let ?s1 = "fst (team_report_in_store tm A (j, l) s)"
  have a: "allocated s \<le> allocated ?s1" by (simp add: team_report_in_store_fields)
  have "allocated ?s1 \<le> allocated (fst (team_reports_in_store tm A ts ?s1))"
    by (rule Cons.IH)
  with a have "allocated s \<le> allocated (fst (team_reports_in_store tm A ts ?s1))"
    by (rule order_trans)
  with a show ?case
    by (simp add: t team_reports_in_store_Cons del: team_reports_in_store.simps(2)
        split: sum.splits)
qed

lemma team_reports_in_store_new:
  "r < allocated s \<Longrightarrow> count_objects (fst (team_reports_in_store tm A items s)) r = count_objects s r"
  "r < allocated s \<Longrightarrow> group_objects (fst (team_reports_in_store tm A items s)) r = group_objects s r"
proof (induction items arbitrary: s)
  case Nil
  {
    case 1 show ?case by simp
  next
    case 2 show ?case by simp
  }
next
  case (Cons t ts)
  obtain j l where t: "t = (j, l)" by (cases t)
  {
    fix s :: store assume r: "r < allocated s"
    have "allocated s \<le> allocated (fst (team_report_in_store tm A (j, l) s))"
      by (simp add: team_report_in_store_fields)
    with r have "r < allocated (fst (team_report_in_store tm A (j, l) s))" by simp
  } note step = this
  {
    case 1
    from Cons.IH(1)[OF step[OF 1]] 1 show ?case
      by (simp add: t team_reports_in_store_Cons team_report_in_store_fields
          del: team_reports_in_store.simps(2) split: sum.splits)
  next
    case 2
    from Cons.IH(2)[OF step[OF 2]] 2 show ?case
      by (simp add: t team_reports_in_store_Cons team_report_in_store_fields
          del: team_reports_in_store.simps(2) split: sum.splits)
  }
qed

lemma team_report_Inr:
  assumes "team_report (j, players_of s l) = Inr r"
  shows "list_objects s l \<noteq> []"
    and "printed_average r
         = sum_list (map overall (players_of s l)) / real (length (list_objects s l))"
  using assms by (auto simp: team_report_def players_of_def split: if_splits)

lemma team_reports_in_store_result:
  assumes "\<forall>(j, l) \<in> set items. l \<noteq> A"
  shows "snd (team_reports_in_store tm A items s)
         = team_reports (map (\<lambda>(j, l). (j, players_of s l)) items)"
    and "team_reports (map (\<lambda>(j, l). (j, players_of s l)) items) = Inr rs
         \<Longrightarrow> float_objects (fst (team_reports_in_store tm A items s)) tm
               = float_objects s tm @ map printed_average rs
             \<and> list_objects (fst (team_reports_in_store tm A items s)) A
               = list_objects s A @ concat (map (\<lambda>(j, l). list_objects s l) items)"
  using assms
proof (induction items arbitrary: s rs)
  case Nil
  {
    case 1 show ?case by simp
  next
    case 2 then show ?case by auto
  }
next
  case (Cons t ts)
  obtain j l where t: "t = (j, l)" by (cases t)
  {
    fix s :: store
    assume all: "\<forall>(j, l) \<in> set (t # ts). l \<noteq> A"
    let ?s1 = "fst (team_report_in_store tm A (j, l) s)"
    from all have l: "l \<noteq> A" and rest: "\<forall>(j, l) \<in> set ts. l \<noteq> A" by (auto simp: t)
    have same: "map (\<lambda>(j, l). (j, players_of ?s1 l)) ts = map (\<lambda>(j, l). (j, players_of s l)) ts"
      using rest by (auto simp: players_of_def team_report_in_store_fields)
    have lists: "map (\<lambda>(j, l). list_objects ?s1 l) ts = map (\<lambda>(j, l). list_objects s l) ts"
      using rest by (auto simp: team_report_in_store_fields)
    note l rest same lists
  } note facts = this
  {
    case 1
    note f = facts[OF 1]
    let ?s1 = "fst (team_report_in_store tm A (j, l) s)"
    show ?case
      using Cons.IH(1)[OF f(2), of ?s1]
      by (auto simp add: t team_reports_in_store_Cons team_report_in_store_result(1)[OF f(1)] f(3)
          simp del: team_reports_in_store.simps(2) split: sum.splits)
  next
    case 2
    note f = facts[OF 2(2)]
    let ?s1 = "fst (team_report_in_store tm A (j, l) s)"
    from 2(1) obtain r rs' where
      o: "team_report (j, players_of s l) = Inr r"
      and os: "team_reports (map (\<lambda>(j, l). (j, players_of s l)) ts) = Inr rs'"
      and rs: "rs = r # rs'"
      by (auto simp: t split: sum.splits)
    from os have os1: "team_reports (map (\<lambda>(j, l). (j, players_of ?s1 l)) ts) = Inr rs'"
      by (simp add: f(3))
    from Cons.IH(2)[OF os1 f(2)]
    have ih: "float_objects (fst (team_reports_in_store tm A ts ?s1)) tm
                = float_objects ?s1 tm @ map printed_average rs'"
      "list_objects (fst (team_reports_in_store tm A ts ?s1)) A
                = list_objects ?s1 A @ concat (map (\<lambda>(j, l). list_objects s l) ts)"
      by (simp_all only: f(4))
    note first = team_report_in_store_result(2)[OF f(1) team_report_Inr(1)[OF o], of tm j]
    have snd1: "snd (team_reports_in_store tm A ts ?s1) = Inr rs'"
      using Cons.IH(1)[OF f(2), of ?s1] os1 by simp
    show ?case
      by (simp add: t team_reports_in_store_Cons team_report_in_store_result(1)[OF f(1)] o rs ih
          first snd1 team_report_Inr(2)[OF o] del: team_reports_in_store.simps(2))
  }
qed

lemma print_teams_in_store_unchanged:
  "unchanged (allocated s) s (fst (print_teams_in_store t s))"
  by (simp add: print_teams_in_store_def unchanged_def new_list_def new_floats_def Let_def
      split_beta team_reports_in_store_fields team_reports_in_store_new
      order_trans[OF _ team_reports_in_store_allocated] split: sum.splits)

lemma print_teams_in_store_result:
  assumes "lists_allocated s t"
  shows "snd (print_teams_in_store t s) = print_teams (teams_of s t)"
proof (cases "dict_objects s t = []")
  case True
  then show ?thesis by (simp add: print_teams_in_store_def print_teams_def teams_of_def)
next
  case False
  let ?T = "allocated s" and ?A = "allocated s + 1"
  let ?s2 = "s\<lparr>float_objects := (float_objects s)(?T := []), allocated := ?T + 1,
               list_objects := (list_objects s)(?A := []), allocated := ?A + 1\<rparr>"
  let ?items = "sort_key fst (dict_objects s t)"
  define s3 where "s3 = fst (team_reports_in_store ?T ?A ?items ?s2)"
  define e3 where "e3 = snd (team_reports_in_store ?T ?A ?items ?s2)"
  define T where "T = allocated s"
  define its where "its = map (\<lambda>(j, l). (j, players_of s l)) ?items"
  from assms have ne: "\<forall>(j, l) \<in> set ?items. l \<noteq> ?A"
    by (auto simp: lists_allocated_def)
  have same: "map (\<lambda>(j, l). (j, players_of ?s2 l)) ?items
              = map (\<lambda>(j, l). (j, players_of s l)) ?items"
    using ne by (auto simp: players_of_def)
  have lists: "map (\<lambda>(j, l). list_objects ?s2 l) ?items = map (\<lambda>(j, l). list_objects s l) ?items"
    using ne by auto
  have unfold: "snd (print_teams_in_store t s)
     = (case e3 of
          Inl e \<Rightarrow> Inl e
        | Inr reports \<Rightarrow>
            if length (list_objects s3 (Suc T)) = 0 then Inl ZeroDivisionError
            else Inr (Some \<lparr>printed_teams = reports,
                    printed_overall_mean = sum_list (map overall (players_of s3 (Suc T)))
                                   / real (length (list_objects s3 (Suc T))),
                    printed_team_means = float_objects s3 T,
                    printed_max_diff =
                      Max (set (float_objects s3 T)) - Min (set (float_objects s3 T))\<rparr>))"
    unfolding s3_def e3_def T_def using False
    by (simp add: print_teams_in_store_def new_list_def new_floats_def Let_def split_beta
        split: sum.splits)
  from False have "teams_of s t \<noteq> []" by (simp add: teams_of_def)
  then have pure: "print_teams (teams_of s t)
     = (case team_reports its of
          Inl e \<Rightarrow> Inl e
        | Inr reports \<Rightarrow>
            if length (concat (map snd its)) = 0 then Inl ZeroDivisionError
            else Inr (Some \<lparr>printed_teams = reports,
                    printed_overall_mean = sum_list (map overall (concat (map snd its)))
                                   / real (length (concat (map snd its))),
                    printed_team_means = map printed_average reports,
                    printed_max_diff =
                      Max (set (map printed_average reports))
                      - Min (set (map printed_average reports))\<rparr>))"
    unfolding its_def by (auto simp add: print_teams_def sorted_teams_of Let_def split: sum.splits)
  note res = team_reports_in_store_result[OF ne, where tm = "?T" and s = "?s2", unfolded same lists,
      folded s3_def e3_def its_def]
  show ?thesis
  proof (cases "team_reports its")
    case (Inl e)
    with res(1) show ?thesis by (simp add: unfold pure)
  next
    case (Inr reports)
    from res(2)[OF Inr] have m: "float_objects s3 T = map printed_average reports"
      and l: "list_objects s3 (Suc T) = concat (map (\<lambda>(j, l). list_objects s l) ?items)"
      by (simp_all add: T_def)
    have po: "player_objects s3 = player_objects s"
      unfolding s3_def by (simp add: team_reports_in_store_fields)
    have p: "players_of s3 (Suc T) = concat (map snd its)"
      unfolding players_of_def po l its_def by (simp add: map_concat comp_def split_beta)
    have len: "length (list_objects s3 (Suc T)) = length (concat (map snd its))"
      unfolding l its_def by (simp add: players_of_def length_concat comp_def split_beta)
    from res(1) Inr show ?thesis by (simp add: unfold pure m p len)
  qed
qed

subsection \<open>The objects are left as they are\<close>

lemma unchanged_teams_of:
  assumes "unchanged (allocated s) s s'" and "lists_allocated s t"
  shows "teams_of s' t = teams_of s t" and "lists_allocated s' t"
  using assms
  by (auto simp: unchanged_def lists_allocated_def teams_of_def players_of_def)

text \<open>
  Claim C9. Computing the statistics changes no object that exists when the computation
  starts, whatever the store and the dictionary: every \<^verbatim>\<open>Player\<close>, the dictionary of
  teams and its lists are afterwards what they were; all writes go to the objects the
  computation makes itself. When the lists of the dictionary are objects of the store,
  the result is the function \<open>statistics\<close> of the dictionary's content, an exception
  included, and computing the statistics a second time, on the store the first
  computation leaves, gives the same result. The same holds of \<^verbatim>\<open>print_teams\<close>.
\<close>

theorem statistics_leave_the_objects:
  "unchanged (allocated s) s (fst (statistics_in_store t s))
   \<and> unchanged (allocated s) s (fst (print_teams_in_store t s))
   \<and> (lists_allocated s t \<longrightarrow>
        snd (statistics_in_store t s) = statistics (teams_of s t)
        \<and> snd (statistics_in_store t (fst (statistics_in_store t s)))
          = snd (statistics_in_store t s)
        \<and> snd (print_teams_in_store t s) = print_teams (teams_of s t)
        \<and> snd (print_teams_in_store t (fst (print_teams_in_store t s)))
          = snd (print_teams_in_store t s))"
proof -
  have u1: "unchanged (allocated s) s (fst (statistics_in_store t s))"
    by (rule statistics_in_store_unchanged)
  have u2: "unchanged (allocated s) s (fst (print_teams_in_store t s))"
    by (rule print_teams_in_store_unchanged)
  {
    assume a: "lists_allocated s t"
    note r1 = statistics_in_store_result[OF a]
    note r2 = print_teams_in_store_result[OF a]
    from unchanged_teams_of[OF u1 a] statistics_in_store_result
    have "snd (statistics_in_store t (fst (statistics_in_store t s))) = statistics (teams_of s t)"
      by simp
    moreover from unchanged_teams_of[OF u2 a] print_teams_in_store_result
    have "snd (print_teams_in_store t (fst (print_teams_in_store t s))) = print_teams (teams_of s t)"
      by simp
    ultimately have "snd (statistics_in_store t s) = statistics (teams_of s t)
        \<and> snd (statistics_in_store t (fst (statistics_in_store t s)))
          = snd (statistics_in_store t s)
        \<and> snd (print_teams_in_store t s) = print_teams (teams_of s t)
        \<and> snd (print_teams_in_store t (fst (print_teams_in_store t s)))
          = snd (print_teams_in_store t s)"
      using r1 r2 by simp
  }
  with u1 u2 show ?thesis by blast
qed

lemma store2_teams:
  "teams_of store2 4 = [(1, [mk_player ''b'' 4 ''MID'']), (0, [mk_player ''a'' 3 ''DEF''])]"
  by (simp add: teams_of_def players_of_def store2_def)

lemma store2_statistics:
  "statistics [(1, [mk_player ''b'' 4 ''MID'']), (0, [mk_player ''a'' 3 ''DEF''])]
   = Inr \<lparr>teams =
            [\<lparr>team_number = 1, team_players = [mk_player ''a'' 3 ''DEF''], average_rating = 3,
              position_distribution = [(''DEF'', 1), (''MID'', 0), (''ATT'', 0)],
              total_rating = 3\<rparr>,
             \<lparr>team_number = 2, team_players = [mk_player ''b'' 4 ''MID''], average_rating = 4,
              position_distribution = [(''DEF'', 0), (''MID'', 1), (''ATT'', 0)],
              total_rating = 4\<rparr>],
          overall_mean = 7 / 2, max_rating_difference = 1\<rparr>"
  by (simp add: statistics_def team_output_def mk_player_def)

theorem statistics_leave_the_objects_witness:
  "lists_allocated store2 4
   \<and> unchanged (allocated store2) store2 (fst (statistics_in_store 4 store2))
   \<and> unchanged (allocated store2) store2 (fst (print_teams_in_store 4 store2))
   \<and> snd (statistics_in_store 4 store2)
     = Inr \<lparr>teams =
            [\<lparr>team_number = 1, team_players = [mk_player ''a'' 3 ''DEF''], average_rating = 3,
              position_distribution = [(''DEF'', 1), (''MID'', 0), (''ATT'', 0)],
              total_rating = 3\<rparr>,
             \<lparr>team_number = 2, team_players = [mk_player ''b'' 4 ''MID''], average_rating = 4,
              position_distribution = [(''DEF'', 0), (''MID'', 1), (''ATT'', 0)],
              total_rating = 4\<rparr>],
          overall_mean = 7 / 2, max_rating_difference = 1\<rparr>
   \<and> snd (statistics_in_store 4 (fst (statistics_in_store 4 store2)))
     = snd (statistics_in_store 4 store2)
   \<and> snd (print_teams_in_store 4 (fst (print_teams_in_store 4 store2)))
     = snd (print_teams_in_store 4 store2)"
proof -
  have a: "lists_allocated store2 4" by (simp add: lists_allocated_def store2_def)
  from statistics_leave_the_objects[of store2 4, unfolded store2_teams store2_statistics] a
  show ?thesis by simp
qed


section \<open>A position the API does not know\<close>

text \<open>
  Claim C10. When the dictionary a run returns has a player whose position is not
  \<^verbatim>\<open>DEF\<close>, \<^verbatim>\<open>MID\<close> or \<^verbatim>\<open>ATT\<close>, the statistics of the API raise \<^verbatim>\<open>KeyError\<close> for such a
  position, and both endpoints answer with status 500.
\<close>

theorem unknown_position_gives_500:
  assumes run: "balance_teams solve rng ps num_teams time_limit num_attempts = Inr st"
    and "(k, l) \<in> set (best_teams st)" and "p \<in> set l"
    and "position p \<notin> {''DEF'', ''MID'', ''ATT''}"
  shows "(\<exists>pos. pos \<notin> {''DEF'', ''MID'', ''ATT''}
            \<and> statistics (best_teams st) = Inl (KeyError pos))
         \<and> balance_teams_json solve rng ps num_teams time_limit num_attempts = HTTPException 500
         \<and> balance_teams_csv solve rng ps num_teams time_limit num_attempts = HTTPException 500"
proof -
  from balance_teams_best_wf[OF run] have "[] \<notin> snd ` set (best_teams st)"
    by (simp add: wf_teams_def)
  from statistics_unknown_position[OF this assms(2,3)] assms(4)
  obtain pos where pos: "pos \<notin> known_positions"
    and s: "statistics (best_teams st) = Inl (KeyError pos)"
    by (auto simp: known_positions_def)
  from assms(2) have "best_teams st \<noteq> []" by auto
  with s run have "balance_response (balance_teams solve rng ps num_teams time_limit num_attempts)
                   = HTTPException 500"
    by (simp add: balance_response_def)
  with pos s show ?thesis
    by (auto simp: balance_teams_json_def balance_teams_csv_def known_positions_def)
qed


theorem unknown_position_gives_500_witness:
  "(\<exists>pos. pos \<notin> {''DEF'', ''MID'', ''ATT''} \<and> statistics roster14_teams = Inl (KeyError pos))
   \<and> balance_teams_json (checked_solver alternate) (\<lambda>k. identity_draws) roster14 2 30 1
     = HTTPException 500
   \<and> balance_teams_csv (checked_solver alternate) (\<lambda>k. identity_draws) roster14 2 30 1
     = HTTPException 500"
proof -
  let ?g = "mk_player ''g1'' 3 ''GK''"
  have m: "(0, snd (roster12_teams ! 0) @ [?g])
           \<in> set (best_teams \<lparr>players = roster14, best_teams = roster14_teams,
                best_diff = Finite (max_rating_diff roster14_teams), solver_calls = 1\<rparr>)"
    by (simp add: roster14_teams_def)
  have g: "?g \<in> set (snd (roster12_teams ! 0) @ [?g])" by simp
  have p: "position ?g \<notin> {''DEF'', ''MID'', ''ATT''}" by (simp add: mk_player_def)
  from unknown_position_gives_500[OF run_roster14 m g p] show ?thesis by simp
qed

section \<open>What a solution of the problem gives\<close>

text \<open>
  The constraints the code builds, read on an assignment that satisfies them: every player
  has the value 1 for exactly one team, every team has \<^verbatim>\<open>len(self.players) // num_teams\<close>
  players with the value 1, and at least the required number of each position.
\<close>

lemma sum_binary_values:
  assumes "\<forall>v \<in> set vs. is_binary vals v"
  shows "sum_list (map (var_value vals) vs) = real (length (filter (\<lambda>v. vals v = Some 1) vs))"
  using assms by (induction vs) (auto simp: is_binary_def var_value_def)

lemma aff_value_lpSum:
  assumes "\<forall>v \<in> set vs. is_binary vals v"
  shows "aff_value vals (lpSum vs) = real (length (filter (\<lambda>v. vals v = Some 1) vs))"
proof -
  have "aff_value vals (lpSum vs) = sum_list (map (var_value vals) vs)"
    by (simp add: aff_value_def lpSum_def comp_def)
  with sum_binary_values[OF assms] show ?thesis by simp
qed

lemma aff_value_const: "aff_value vals (const_aff c) = c"
  by (simp add: aff_value_def const_aff_def)

lemma feasible_binary:
  assumes feas: "feasible (build_problem ps num_teams jitter) vals"
    and i: "i < length ps" and j: "j < nat num_teams"
  shows "is_binary vals (player_var i j)"
proof -
  from feas have "\<forall>v \<in> set (binary_vars (build_problem ps num_teams jitter)). is_binary vals v"
    by (simp add: feasible_def list_all_iff)
  moreover have "player_var i j \<in> set (binary_vars (build_problem ps num_teams jitter))"
    using i j by (auto simp: build_problem_def intro!: bexI[of _ i])
  ultimately show ?thesis by blast
qed

lemma feasible_holds:
  assumes "feasible (build_problem ps num_teams jitter) vals"
    and "c \<in> set (constraints (build_problem ps num_teams jitter))"
  shows "holds vals c"
  using assms by (simp add: feasible_def list_all_iff)

lemma feasible_one_team:
  assumes feas: "feasible (build_problem ps num_teams jitter) vals"
    and i: "i < length ps"
  shows "length (filter (\<lambda>j. assigned vals j i) [0..<nat num_teams]) = 1"
proof -
  let ?c = "\<lparr>lhs = lpSum (map (player_var i) [0..<nat num_teams]),
             sense = LpConstraintEQ, rhs = const_aff 1\<rparr>"
  from i have "?c \<in> set (constraints (build_problem ps num_teams jitter))"
    by (simp add: build_problem_def one_team_constraints_def)
  from feasible_holds[OF feas this]
  have "aff_value vals (lpSum (map (player_var i) [0..<nat num_teams])) = 1"
    by (simp add: holds_def aff_value_const)
  moreover have "\<forall>v \<in> set (map (player_var i) [0..<nat num_teams]). is_binary vals v"
    using feasible_binary[OF feas i] by simp
  ultimately have "real (length (filter (\<lambda>v. vals v = Some 1)
                      (map (player_var i) [0..<nat num_teams]))) = 1"
    by (simp add: aff_value_lpSum)
  then show ?thesis by (simp add: filter_map comp_def assigned_def)
qed

lemma feasible_size:
  assumes feas: "feasible (build_problem ps num_teams jitter) vals"
    and j: "j < nat num_teams"
  shows "int (length (filter (assigned vals j) [0..<length ps])) = int (length ps) div num_teams"
proof -
  from j have "size_constraint ps num_teams j
               \<in> set (constraints (build_problem ps num_teams jitter))"
    by (auto simp: build_problem_def team_constraints_def)
  from feasible_holds[OF feas this]
  have "aff_value vals (lpSum (map (\<lambda>i. player_var i j) [0..<length ps]))
        = real_of_int (int (length ps) div num_teams)"
    by (simp add: holds_def size_constraint_def aff_value_const)
  moreover have "\<forall>v \<in> set (map (\<lambda>i. player_var i j) [0..<length ps]). is_binary vals v"
    using feasible_binary[OF feas _ j] by simp
  ultimately have "real (length (filter (\<lambda>v. vals v = Some 1)
                      (map (\<lambda>i. player_var i j) [0..<length ps])))
                   = real_of_int (int (length ps) div num_teams)"
    by (simp add: aff_value_lpSum)
  then have "real_of_int (int (length (filter (assigned vals j) [0..<length ps])))
             = real_of_int (int (length ps) div num_teams)"
    by (simp add: filter_map comp_def assigned_def)
  then show ?thesis by (simp only: of_int_eq_iff)
qed

lemma feasible_quota:
  assumes feas: "feasible (build_problem ps num_teams jitter) vals"
    and j: "j < nat num_teams" and req: "(pos, min_count) \<in> set position_requirements"
  shows "min_count \<le> length (filter (\<lambda>i. position (ps ! i) = pos)
                          (filter (assigned vals j) [0..<length ps]))"
proof -
  let ?is = "filter (\<lambda>i. position (ps ! i) = pos) [0..<length ps]"
  from j req have "position_constraint ps j (pos, min_count)
                   \<in> set (constraints (build_problem ps num_teams jitter))"
    by (auto simp: build_problem_def team_constraints_def)
  from feasible_holds[OF feas this]
  have "real min_count \<le> aff_value vals (lpSum (map (\<lambda>i. player_var i j) ?is))"
    by (simp add: holds_def position_constraint_def aff_value_const)
  moreover have "\<forall>v \<in> set (map (\<lambda>i. player_var i j) ?is). is_binary vals v"
    using feasible_binary[OF feas _ j] by simp
  ultimately have "real min_count
                   \<le> real (length (filter (\<lambda>v. vals v = Some 1) (map (\<lambda>i. player_var i j) ?is)))"
    by (simp add: aff_value_lpSum)
  then have "min_count \<le> length (filter (assigned vals j) ?is)"
    by (simp add: filter_map comp_def assigned_def)
  also have "filter (assigned vals j) ?is
             = filter (\<lambda>i. position (ps ! i) = pos) (filter (assigned vals j) [0..<length ps])"
    by (simp add: conj_commute)
  finally show ?thesis .
qed

lemma sum_indicator_mset:
  "(\<Sum>j<m. if Q j then {#a#} else {#}) = replicate_mset (length (filter Q [0..<m])) a"
  by (induction m) simp_all

lemma partition_mset:
  assumes "\<forall>x \<in># M. length (filter (\<lambda>j. P j x) [0..<m]) = 1"
  shows "(\<Sum>j<m. image_mset f (filter_mset (P j) M)) = image_mset f M"
  using assms
proof (induction M)
  case empty
  show ?case by simp
next
  case (add x M)
  from add.prems have one: "length (filter (\<lambda>j. P j x) [0..<m]) = 1"
    and rest: "\<forall>x \<in># M. length (filter (\<lambda>j. P j x) [0..<m]) = 1"
    by simp_all
  have "(\<Sum>j<m. image_mset f (filter_mset (P j) (add_mset x M)))
        = (\<Sum>j<m. (if P j x then {#f x#} else {#}) + image_mset f (filter_mset (P j) M))"
    by (rule sum.cong) simp_all
  also have "\<dots> = (\<Sum>j<m. if P j x then {#f x#} else {#})
                   + (\<Sum>j<m. image_mset f (filter_mset (P j) M))"
    by (rule sum.distrib)
  also have "\<dots> = {#f x#} + image_mset f M"
    by (simp add: sum_indicator_mset one add.IH[OF rest])
  finally show ?case by simp
qed

lemma teams_cover:
  assumes feas: "feasible (build_problem ps num_teams jitter) vals"
  shows "(\<Sum>j<nat num_teams. mset (map ((!) ps) (filter (assigned vals j) [0..<length ps])))
         = mset ps"
proof -
  let ?M = "mset [0..<length ps]"
  have "\<forall>x \<in># ?M. length (filter (\<lambda>j. assigned vals j x) [0..<nat num_teams]) = 1"
    using feasible_one_team[OF feas] by simp
  from partition_mset[OF this, of "(!) ps"]
  have "(\<Sum>j<nat num_teams. image_mset ((!) ps) (filter_mset (assigned vals j) ?M))
        = image_mset ((!) ps) ?M" .
  then have "(\<Sum>j<nat num_teams. mset (map ((!) ps) (filter (assigned vals j) [0..<length ps])))
        = mset (map ((!) ps) [0..<length ps])"
    by (simp only: mset_map mset_filter)
  then show ?thesis by (simp only: map_nth)
qed

lemma extract_teams_feasible:
  assumes feas: "feasible (build_problem ps num_teams jitter) vals"
    and ne: "extract_teams ps num_teams vals \<noteq> []"
  shows "int (length (extract_teams ps num_teams vals)) = num_teams"
    and "fst ` set (extract_teams ps num_teams vals) = {..<nat num_teams}"
    and "\<forall>(j, l) \<in> set (extract_teams ps num_teams vals).
           int (length l) = int (length ps) div num_teams"
    and "mset (concat (map snd (extract_teams ps num_teams vals))) = mset ps"
    and "\<forall>(j, l) \<in> set (extract_teams ps num_teams vals).
           \<forall>(pos, min_count) \<in> set position_requirements.
             min_count \<le> length (filter (\<lambda>p. position p = pos) l)"
proof -
  let ?t = "extract_teams ps num_teams vals"
  let ?L = "\<lambda>k. map ((!) ps) (filter (assigned vals k) [0..<length ps])"
  have wf: "wf_teams ?t" by (rule wf_extract_teams)
  then have dist: "distinct (map fst ?t)" by (simp add: wf_teams_def)
  have mem: "members ?t k = (if k < nat num_teams then ?L k else [])" for k
    by (rule members_extract_teams)
  have len: "int (length (?L k)) = int (length ps) div num_teams" if "k < nat num_teams" for k
    using feasible_size[OF feas that] by simp
  from ne wf_nil_iff[OF wf] obtain k0 where k0: "members ?t k0 \<noteq> []" by blast
  with mem[of k0] have k0T: "k0 < nat num_teams" and L0: "?L k0 \<noteq> []"
    by (auto split: if_splits)
  from L0 have "0 < int (length (?L k0))" by simp
  with len[OF k0T] have pos: "0 < int (length ps) div num_teams" by (simp only:)
  have keys: "fst ` set ?t = {..<nat num_teams}"
  proof (rule set_eqI)
    fix k
    have "k \<in> fst ` set ?t \<longleftrightarrow> members ?t k \<noteq> []" by (rule wf_members_iff[OF wf])
    also have "\<dots> \<longleftrightarrow> k < nat num_teams"
    proof (cases "k < nat num_teams")
      case True
      from len[OF True] pos have "?L k \<noteq> []" by auto
      with True mem[of k] show ?thesis by simp
    next
      case False
      with mem[of k] show ?thesis by simp
    qed
    finally show "k \<in> fst ` set ?t \<longleftrightarrow> k \<in> {..<nat num_teams}" by simp
  qed
  then show "fst ` set ?t = {..<nat num_teams}" .
  have "card (fst ` set ?t) = length ?t" using distinct_card[OF dist] by simp
  with keys have "length ?t = nat num_teams" by simp
  with k0T show "int (length ?t) = num_teams" by simp
  show "\<forall>(j, l) \<in> set ?t. int (length l) = int (length ps) div num_teams"
  proof (clarify)
    fix j l assume "(j, l) \<in> set ?t"
    from extract_teams_entry(3,4)[OF this] len show "int (length l) = int (length ps) div num_teams"
      by simp
  qed
  have "mset (concat (map snd ?t)) = (\<Sum>k \<in> fst ` set ?t. mset (members ?t k))"
    by (rule mset_concat_teams[OF dist])
  also have "\<dots> = (\<Sum>k<nat num_teams. mset (?L k))"
    unfolding keys by (rule sum.cong) (simp_all add: mem)
  also have "\<dots> = mset ps" by (rule teams_cover[OF feas])
  finally show "mset (concat (map snd ?t)) = mset ps" .
  show "\<forall>(j, l) \<in> set ?t. \<forall>(pos, min_count) \<in> set position_requirements.
          min_count \<le> length (filter (\<lambda>p. position p = pos) l)"
  proof (clarify)
    fix j l pos min_count
    assume e: "(j, l) \<in> set ?t" and r: "(pos, min_count) \<in> set position_requirements"
    from extract_teams_entry(3,4)[OF e] have j: "j < nat num_teams" and l: "l = ?L j" by simp_all
    have "length (filter (\<lambda>p. position p = pos) l)
          = length (filter (\<lambda>i. position (ps ! i) = pos)
                      (filter (assigned vals j) [0..<length ps]))"
      unfolding l by (simp add: filter_map comp_def)
    with feasible_quota[OF feas j r]
    show "min_count \<le> length (filter (\<lambda>p. position p = pos) l)" by simp
  qed
qed

lemma attempts_best_property:
  assumes run: "attempts solve num_teams time_limit ds st = Inr st'"
    and contract: "solver_contract solve"
    and never: "never_stopped solve"
    and init: "best_teams st \<noteq> [] \<longrightarrow> Q (best_teams st)"
    and step: "\<And>ps' jitter vals.
                 mset ps' = mset (players st) \<Longrightarrow>
                 feasible (build_problem ps' num_teams jitter) vals \<Longrightarrow>
                 extract_teams ps' num_teams vals \<noteq> [] \<Longrightarrow>
                 Q (extract_teams ps' num_teams vals)"
  shows "best_teams st' \<noteq> [] \<longrightarrow> Q (best_teams st')"
proof -
  let ?I = "\<lambda>s. mset (players s) = mset (players st)
               \<and> (best_teams s \<noteq> [] \<longrightarrow> Q (best_teams s))"
  have "?I st'"
  proof (rule attempts_invariant[OF run, where I = ?I])
    show "?I st" using init by simp
  next
    fix d s s'
    assume I: "?I s" and a: "attempt solve num_teams time_limit d s = Inr s'"
    from a obtain found max_diff where
      t: "try_balance_teams solve (shuffled d s) num_teams time_limit (jitter_draws d)
          = Inr (found, max_diff)"
      and p: "players s' = shuffled d s"
      and b: "(best_teams s', best_diff s')
              = (if found \<noteq> [] \<and> diff_less max_diff (best_diff s)
                 then (found, max_diff) else (best_teams s, best_diff s))"
      by (rule attempt_cases)
    from I have ms: "mset (shuffled d s) = mset (players st)"
      by (simp add: shuffled_def mset_shuffle)
    have f: "found \<noteq> [] \<longrightarrow> Q found"
    proof
      assume ne: "found \<noteq> []"
      with try_balance_teams_result[OF t] obtain status vals where
        s: "solve (build_problem (shuffled d s) num_teams (jitter_draws d)) time_limit
            = (status, vals)"
        and u: "usable status"
        and e: "found = extract_teams (shuffled d s) num_teams vals" by blast
      from never s have "status \<noteq> LpStatusNotSolved"
        unfolding never_stopped_def by (metis fst_conv)
      with u have "status = LpStatusOptimal" by (simp add: usable_def)
      with contract s have "feasible (build_problem (shuffled d s) num_teams (jitter_draws d)) vals"
        unfolding solver_contract_def by (metis fst_conv snd_conv)
      from step[OF ms this] ne e show "Q found" by simp
    qed
    show "?I s'" using I ms p b f by (auto split: if_splits)
  qed
  then show ?thesis by simp
qed

lemma balance_teams_attempts:
  assumes "balance_teams solve rng ps num_teams time_limit num_attempts = Inr st"
    and "best_teams st \<noteq> []"
  shows "attempts solve num_teams (time_limit div num_attempts)
           (map rng [0..<nat num_attempts]) (start ps) = Inr st"
  using assms by (auto simp: balance_teams_def start_def split: if_splits)


section \<open>The teams read from a solution\<close>

text \<open>
  What the constraints of lines 66-98 give. When the solver keeps the contract and never
  answers \<^verbatim>\<open>'Not Solved'\<close>, every dictionary that \<^verbatim>\<open>balance_teams\<close> returns and that is not
  empty was read from a solution: it has exactly \<open>num_teams\<close> teams, with the keys
  0 to \<open>num_teams - 1\<close>; every team has \<^verbatim>\<open>len(self.players) // num_teams\<close> players; the
  teams together hold exactly the players of the roster, each as often as the roster
  does; and every team has the required number of players of each position.
\<close>

lemma balance_teams_of_solutions:
  assumes contract: "solver_contract solve" and never: "never_stopped solve"
    and run: "balance_teams solve rng ps num_teams time_limit num_attempts = Inr st"
    and ne: "best_teams st \<noteq> []"
  shows "int (length (best_teams st)) = num_teams"
    and "fst ` set (best_teams st) = {..<nat num_teams}"
    and "\<forall>(j, l) \<in> set (best_teams st). int (length l) = int (length ps) div num_teams"
    and "mset (concat (map snd (best_teams st))) = mset ps"
    and "\<forall>(j, l) \<in> set (best_teams st). \<forall>(pos, min_count) \<in> set position_requirements.
           min_count \<le> length (filter (\<lambda>p. position p = pos) l)"
proof -
  let ?Q = "\<lambda>t. int (length t) = num_teams
         \<and> fst ` set t = {..<nat num_teams}
         \<and> (\<forall>(j, l) \<in> set t. int (length l) = int (length ps) div num_teams)
         \<and> mset (concat (map snd t)) = mset ps
         \<and> (\<forall>(j, l) \<in> set t. \<forall>(pos, min_count) \<in> set position_requirements.
               min_count \<le> length (filter (\<lambda>p. position p = pos) l))"
  have "best_teams st \<noteq> [] \<longrightarrow> ?Q (best_teams st)"
  proof (rule attempts_best_property[OF balance_teams_attempts[OF run ne] contract never,
        where Q = ?Q])
    show "best_teams (start ps) \<noteq> [] \<longrightarrow> ?Q (best_teams (start ps))" by (simp add: start_def)
  next
    fix ps' jitter vals
    assume ms: "mset ps' = mset (players (start ps))"
      and feas: "feasible (build_problem ps' num_teams jitter) vals"
      and e: "extract_teams ps' num_teams vals \<noteq> []"
    from ms have m: "mset ps' = mset ps" by (simp add: start_def)
    then have "length ps' = length ps" by (rule mset_eq_length)
    with extract_teams_feasible[OF feas e] m
    show "?Q (extract_teams ps' num_teams vals)" by simp
  qed
  with ne show "int (length (best_teams st)) = num_teams"
    and "fst ` set (best_teams st) = {..<nat num_teams}"
    and "\<forall>(j, l) \<in> set (best_teams st). int (length l) = int (length ps) div num_teams"
    and "mset (concat (map snd (best_teams st))) = mset ps"
    and "\<forall>(j, l) \<in> set (best_teams st). \<forall>(pos, min_count) \<in> set position_requirements.
           min_count \<le> length (filter (\<lambda>p. position p = pos) l)"
    by simp_all
qed

text \<open>The run on \<open>roster12\<close> with a solver of that kind is an instance.\<close>

lemma roster12_teams_of_solution:
  "int (length roster12_teams) = 2 \<and> mset (concat (map snd roster12_teams)) = mset roster12"
  using balance_teams_of_solutions(1,4)[OF checked_solver_contract checked_solver_never_stopped
      run_roster12]
  by (simp add: roster12_nonempty)


section \<open>The teams read from a solve that was stopped\<close>

text \<open>
  Claim C1 fails on the code. Line 108 reads the teams also when the status is
  \<^verbatim>\<open>'Not Solved'\<close>, and lines 109-112 take the players whose variable is exactly 1 without
  checking anything. On the twelve players of \<open>roster12\<close>, two teams, \<^verbatim>\<open>time_limit = 1\<close> and
  two attempts (the limit of an attempt is \<^verbatim>\<open>1 // 2 = 0\<close>), with the solver stopped on the
  relaxation, \<^verbatim>\<open>balance_teams\<close> returns two teams of five players where
  \<^verbatim>\<open>len(self.players) // num_teams\<close> is six, and the players \<open>a3\<close> and \<open>a4\<close> of the roster
  are in no team. The comments of lines 66 and 96 say what the claim says.
\<close>

theorem balance_teams_returns_partial_teams:
  "balance_teams (stopped_solver balanced relaxed) (\<lambda>k. identity_draws) roster12 2 1 2
   = Inr \<lparr>players = roster12, best_teams = partial_teams, best_diff = Finite (1 / 10),
          solver_calls = 2\<rparr>
   \<and> map (\<lambda>(j, l). length l) partial_teams = [5, 5]
   \<and> int (length roster12) div 2 = 6
   \<and> mk_player ''a3'' 3 ''ATT'' \<in> set roster12
   \<and> mk_player ''a3'' 3 ''ATT'' \<notin> set (concat (map snd partial_teams))
   \<and> mk_player ''a4'' 2 ''ATT'' \<in> set roster12
   \<and> mk_player ''a4'' 2 ''ATT'' \<notin> set (concat (map snd partial_teams))
   \<and> mset (concat (map snd partial_teams)) \<noteq> mset roster12"
proof -
  have "size (mset (concat (map snd partial_teams))) \<noteq> size (mset roster12)"
    by (simp add: partial_teams_def roster12_def)
  then have "mset (concat (map snd partial_teams)) \<noteq> mset roster12" by metis
  then show ?thesis
    by (simp add: run_stopped) (simp add: partial_teams_def roster12_def mk_player_def)
qed

text \<open>
  Claim C2 fails on the code, by the same defect: in the same run each of the two teams
  returned has one player of position \<^verbatim>\<open>ATT\<close>, and \<^verbatim>\<open>position_requirements\<close> asks for two.
\<close>

theorem balance_teams_returns_too_few_attackers:
  "balance_teams (stopped_solver balanced relaxed) (\<lambda>k. identity_draws) roster12 2 1 2
   = Inr \<lparr>players = roster12, best_teams = partial_teams, best_diff = Finite (1 / 10),
          solver_calls = 2\<rparr>
   \<and> map (\<lambda>(j, l). length (filter (\<lambda>p. position p = ''ATT'') l)) partial_teams = [1, 1]
   \<and> map_of position_requirements ''ATT'' = Some 2"
  by (simp add: run_stopped)
     (simp add: partial_teams_def mk_player_def position_requirements_def)

end
